theory Spec2Isabelle
  imports Complex_Main "HOL-Library.Sublist"
begin

section \<open>Python strings\<close>

text \<open>
  A Python \<open>str\<close> is modelled as a \<open>string\<close>; a \<open>char\<close> stands for a code point
  below 256. The predicates below follow Python on that range.
\<close>

abbreviation NL :: char where
  "NL \<equiv> CHR 0x0A"

text \<open>\<open>str.isspace\<close> on one character (also the class \<open>\s\<close> of \<open>re\<close>).\<close>

definition is_space :: "char \<Rightarrow> bool" where
  "is_space c = (c = CHR 0x09 \<or> c = CHR 0x0A \<or> c = CHR 0x0B \<or> c = CHR 0x0C \<or> c = CHR 0x0D
     \<or> c = CHR 0x1C \<or> c = CHR 0x1D \<or> c = CHR 0x1E \<or> c = CHR 0x1F \<or> c = CHR 0x20
     \<or> c = CHR 0x85 \<or> c = CHR 0xA0)"

text \<open>\<open>str.strip()\<close>: leading and trailing whitespace removed.\<close>

definition strip :: "string \<Rightarrow> string" where
  "strip s = rev (dropWhile is_space (rev (dropWhile is_space s)))"

text \<open>\<open>str.lower()\<close>, character by character.\<close>

definition lower_char :: "char \<Rightarrow> char" where
  "lower_char c =
     (let n = (of_char c :: nat)
      in if (65 \<le> n \<and> n \<le> 90) \<or> (192 \<le> n \<and> n \<le> 222 \<and> n \<noteq> 215)
         then char_of (n + 32) else c)"

definition lower :: "string \<Rightarrow> string" where
  "lower s = map lower_char s"

text \<open>\<open>sub in s\<close> on strings: \<open>sub\<close> occurs in \<open>s\<close> as a contiguous run.\<close>

fun contains :: "string \<Rightarrow> string \<Rightarrow> bool" where
  "contains sub [] = (sub = [])"
| "contains sub (c # cs) = (prefix sub (c # cs) \<or> contains sub cs)"

text \<open>\<open>s.split('\n')\<close>: never empty, one more piece than there are newlines.\<close>

fun split_nl :: "string \<Rightarrow> string list" where
  "split_nl [] = [[]]"
| "split_nl (c # cs) =
     (if c = NL then [] # split_nl cs
      else (c # hd (split_nl cs)) # tl (split_nl cs))"

text \<open>\<open>sep.join(parts)\<close>.\<close>

fun join :: "string \<Rightarrow> string list \<Rightarrow> string" where
  "join sep [] = []"
| "join sep [x] = x"
| "join sep (x # y # ys) = x @ sep @ join sep (y # ys)"

text \<open>
  \<open>s.replace(old, new)\<close>: every non-overlapping occurrence of \<open>old\<close>, scanning from the
  left. With an empty \<open>old\<close>, Python puts \<open>new\<close> before every character and at the end.
\<close>

function replace_scan :: "string \<Rightarrow> string \<Rightarrow> string \<Rightarrow> string" where
  "replace_scan old new s =
     (if old = [] \<or> s = [] then s
      else if prefix old s then new @ replace_scan old new (drop (length old) s)
      else hd s # replace_scan old new (tl s))"
  by pat_completeness auto
termination
  by (relation "measure (\<lambda>(old, new, s). length s)") auto

definition replace :: "string \<Rightarrow> string \<Rightarrow> string \<Rightarrow> string" where
  "replace old new s =
     (if old = [] then new @ concat (map (\<lambda>c. c # new) s) else replace_scan old new s)"

text \<open>\<open>str(n)\<close> for a non-negative integer: its decimal digits.\<close>

definition digit_char :: "nat \<Rightarrow> char" where
  "digit_char d = char_of (48 + d)"

function str_nat :: "nat \<Rightarrow> string" where
  "str_nat n = (if n < 10 then [digit_char n] else str_nat (n div 10) @ [digit_char (n mod 10)])"
  by pat_completeness auto
termination
  by (relation "measure id") auto

section \<open>Exceptions\<close>

text \<open>
  The exception classes of \<open>exceptions.py\<close> that the core dispatches on, each with its
  message (\<open>str(e)\<close>). \<open>RateLimitError\<close> is a subclass of \<open>APIError\<close>. \<open>Exception\<close> stands
  for every other subclass of Python's \<open>Exception\<close> (\<open>IOError\<close>, \<open>FileSystemError\<close>,
  \<open>ValueError\<close>, the errors of the remote client library, ...), which the code only ever
  catches with \<open>except Exception\<close>.
\<close>

datatype exn =
    RateLimitError string
  | APIError string
  | TranslationError string
  | Exception string

fun str_exn :: "exn \<Rightarrow> string" where
  "str_exn (RateLimitError m) = m"
| "str_exn (APIError m) = m"
| "str_exn (TranslationError m) = m"
| "str_exn (Exception m) = m"

section \<open>Remote Translation Gateway (\<open>api_client.py\<close>)\<close>

text \<open>
  The remote service is outside the program. One call of
  \<open>client.models.generate_content(model, contents)\<close> either raises or returns a response,
  which may be \<open>None\<close> and whose \<open>text\<close> may be \<open>None\<close>.
\<close>

datatype response = NoResponse | Response "string option"

datatype api_outcome = Raises exn | Returns response

text \<open>
  The client object: the behaviour of the remote service (what its \<open>n\<close>-th call does, counted
  from 0 over the life of the client, for a model name and a prompt) and the configuration
  fixed by \<open>__init__\<close>.
\<close>

record client =
  generate_content :: "nat \<Rightarrow> string \<Rightarrow> string \<Rightarrow> api_outcome"
  model_name :: string
  max_retries :: int
  retry_delay :: real
  rate_limit_wait :: real

text \<open>What a run has done so far: the remote calls made and the \<open>time.sleep\<close> waits.\<close>

record gateway_state =
  calls :: "(string \<times> string) list"
  slept :: "real list"

text \<open>The body of the \<open>try\<close>: the call, the check for an empty response, \<open>strip\<close>.\<close>

fun try_body :: "api_outcome \<Rightarrow> exn + string" where
  "try_body (Raises e) = Inl e"
| "try_body (Returns NoResponse) = Inl (APIError ''API returned empty response'')"
| "try_body (Returns (Response None)) = Inl (APIError ''API returned empty response'')"
| "try_body (Returns (Response (Some t))) =
     (if t = [] then Inl (APIError ''API returned empty response'') else Inr (strip t))"

text \<open>
  The \<open>except\<close> clauses, in their order. Each either sleeps and lets the loop go on with a
  new \<open>last_exception\<close>, or raises.
\<close>

datatype handled = Retry exn real | Reraise exn

definition rate_limit_message :: "string \<Rightarrow> bool" where
  "rate_limit_message error_message =
     (contains ''quota'' error_message \<or> contains ''rate limit'' error_message
      \<or> contains ''429'' error_message)"

definition resource_exhausted_message :: "string \<Rightarrow> bool" where
  "resource_exhausted_message error_message =
     (contains ''resource exhausted'' error_message
      \<or> contains ''resource_exhausted'' error_message)"

fun except_clauses :: "client \<Rightarrow> nat \<Rightarrow> exn \<Rightarrow> handled" where
  "except_clauses c attempt (RateLimitError m) =
     (if int attempt < max_retries c - 1 then Retry (RateLimitError m) (rate_limit_wait c)
      else Reraise (RateLimitError m))"
| "except_clauses c attempt (APIError m) =
     (if int attempt < max_retries c - 1
      then Retry (APIError m) (retry_delay c * 2 ^ attempt)
      else Reraise (APIError m))"
| "except_clauses c attempt e =
     (let error_message = lower (str_exn e)
      in if rate_limit_message error_message then
           (let last_exception = RateLimitError (''API rate limit reached: '' @ str_exn e)
            in if int attempt < max_retries c - 1
               then Retry last_exception (rate_limit_wait c)
               else Reraise last_exception)
         else if resource_exhausted_message error_message then
           (let last_exception = RateLimitError (''API rate limit reached: '' @ str_exn e)
            in if int attempt < max_retries c - 1
               then Retry last_exception (rate_limit_wait c)
               else Reraise last_exception)
         else
           (let last_exception = APIError (''API call failed: '' @ str_exn e)
            in if int attempt < max_retries c - 1
               then Retry last_exception (retry_delay c * 2 ^ attempt)
               else Reraise last_exception))"

text \<open>\<open>for attempt in range(self.max_retries)\<close>, and the two lines after the loop.\<close>

function attempt_loop ::
  "client \<Rightarrow> string \<Rightarrow> nat \<Rightarrow> exn option \<Rightarrow> gateway_state \<Rightarrow> (exn + string) \<times> gateway_state"
where
  "attempt_loop c prompt attempt last_exception st =
     (if int attempt < max_retries c then
        (let outcome = generate_content c (length (calls st)) (model_name c) prompt;
             st1 = st\<lparr>calls := calls st @ [(model_name c, prompt)]\<rparr>
         in case try_body outcome of
              Inr translated \<Rightarrow> (Inr translated, st1)
            | Inl e \<Rightarrow>
                (case except_clauses c attempt e of
                   Retry raised wait \<Rightarrow>
                     attempt_loop c prompt (Suc attempt) (Some raised)
                       (st1\<lparr>slept := slept st1 @ [wait]\<rparr>)
                 | Reraise raised \<Rightarrow> (Inl raised, st1)))
      else
        (case last_exception of
           Some e \<Rightarrow> (Inl e, st)
         | None \<Rightarrow> (Inl (APIError ''Translation failed after all retries''), st)))"
  by pat_completeness auto
termination
  by (relation "measure (\<lambda>(c, prompt, attempt, le, st). nat (max_retries c - int attempt))")
    auto

definition make_prompt :: "string \<Rightarrow> string \<Rightarrow> string" where
  "make_prompt text target_language =
     ''Translate the following text to '' @ target_language
     @ ''. Preserve all Markdown formatting exactly as it appears. Only return the translated text without any additional explanation:''
     @ [NL, NL] @ text"

definition translate_text ::
  "client \<Rightarrow> string \<Rightarrow> string \<Rightarrow> gateway_state \<Rightarrow> (exn + string) \<times> gateway_state"
where
  "translate_text c text target_language st =
     (if text = [] \<or> strip text = [] then (Inr text, st)
      else attempt_loop c (make_prompt text target_language) 0 None st)"

section \<open>Markdown Shielding Transform (\<open>translation_service.py\<close>)\<close>

text \<open>
  The pattern \<^verbatim>\<open>^\[\^[^\]]+\]:\s*.+$\<close> under \<open>re.match\<close>. \<open>any_plus_end\<close> is
  \<^verbatim>\<open>.+$\<close>: the dot takes every character but a newline, and \<^verbatim>\<open>$\<close> holds at
  the end or before a last newline. \<open>spaces_any_plus_end\<close> is \<^verbatim>\<open>\s*.+$\<close>: some
  number of the leading whitespace characters, then \<^verbatim>\<open>.+$\<close>.
\<close>

definition any_plus_end :: "string \<Rightarrow> bool" where
  "any_plus_end r =
     (let b = takeWhile (\<lambda>c. c \<noteq> NL) r
      in b \<noteq> [] \<and> (drop (length b) r = [] \<or> drop (length b) r = [NL]))"

definition spaces_any_plus_end :: "string \<Rightarrow> bool" where
  "spaces_any_plus_end r =
     list_ex (\<lambda>k. any_plus_end (drop k r)) [0..<Suc (length (takeWhile is_space r))]"

definition footnote_def_pattern :: "string \<Rightarrow> bool" where
  "footnote_def_pattern s =
     (case s of
        c1 # c2 # rest \<Rightarrow>
          c1 = CHR ''['' \<and> c2 = CHR ''^'' \<and>
          (let ident = takeWhile (\<lambda>c. c \<noteq> CHR '']'') rest;
               after = dropWhile (\<lambda>c. c \<noteq> CHR '']'') rest
           in ident \<noteq> [] \<and>
              (case after of
                 b # col # body \<Rightarrow> b = CHR '']'' \<and> col = CHR '':'' \<and> spaces_any_plus_end body
               | _ \<Rightarrow> False))
      | _ \<Rightarrow> False)"

definition placeholder :: "nat \<Rightarrow> string" where
  "placeholder i = ''__FOOTNOTE_'' @ str_nat i @ ''__''"

text \<open>
  The inner \<open>while\<close> of \<open>preprocess_markdown\<close>, on the lines from index \<open>i\<close> on: the
  continuation lines it absorbs and the lines left for the outer loop.
\<close>

fun collect_continuation :: "string list \<Rightarrow> string list \<times> string list" where
  "collect_continuation [] = ([], [])"
| "collect_continuation (next_line # rest) =
     (if strip next_line = [] then ([], next_line # rest)
      else if footnote_def_pattern (strip next_line) then ([], next_line # rest)
      else if prefix ''    '' next_line \<or> prefix [CHR 0x09] next_line then
        (case collect_continuation rest of
           (footnote_lines, remaining) \<Rightarrow> (next_line # footnote_lines, remaining))
      else ([], next_line # rest))"

lemma collect_continuation_length:
  "length (snd (collect_continuation ls)) \<le> length ls"
  by (induction ls) (auto split: prod.splits)

text \<open>The outer \<open>while\<close>, on the lines from index \<open>i\<close> on.\<close>

function preprocess_loop ::
  "string list \<Rightarrow> string list \<Rightarrow> string list \<Rightarrow> string list \<times> string list"
where
  "preprocess_loop [] processed_lines footnotes = (processed_lines, footnotes)"
| "preprocess_loop (line # rest) processed_lines footnotes =
     (if footnote_def_pattern (strip line) then
        (let footnote_lines = line # fst (collect_continuation rest);
             footnote_text = join [NL] footnote_lines;
             footnotes' = footnotes @ [footnote_text]
         in preprocess_loop (snd (collect_continuation rest))
              (processed_lines @ [placeholder (length footnotes' - 1)]) footnotes')
      else preprocess_loop rest (processed_lines @ [line]) footnotes)"
  by pat_completeness auto
termination
  by (relation "measure (\<lambda>(ls, processed_lines, footnotes). length ls)")
    (auto simp: le_imp_less_Suc collect_continuation_length)

definition preprocess_markdown :: "string \<Rightarrow> string \<times> string list" where
  "preprocess_markdown content =
     (case preprocess_loop (split_nl content) [] [] of
        (processed_lines, footnotes) \<Rightarrow> (join [NL] processed_lines, footnotes))"

text \<open>\<open>for i, footnote in enumerate(footnotes)\<close>.\<close>

fun restore_loop :: "nat \<Rightarrow> string list \<Rightarrow> string \<Rightarrow> string" where
  "restore_loop i [] result = result"
| "restore_loop i (footnote # rest) result =
     restore_loop (Suc i) rest (replace (placeholder i) footnote result)"

definition postprocess_markdown :: "string \<Rightarrow> string list \<Rightarrow> string" where
  "postprocess_markdown translated_content footnotes =
     (if footnotes = [] then translated_content
      else restore_loop 0 footnotes translated_content)"

section \<open>Translation Pipeline (\<open>translation_service.py\<close>)\<close>

text \<open>
  The service holds an \<open>api_client\<close>; all it uses of it is \<open>translate_text(text,
  target_language)\<close>, which may raise and may change the client's state \<open>'w\<close>. The gateway
  above is one such client, a test stub another.
\<close>

type_synonym 'w translator = "string \<Rightarrow> string \<Rightarrow> 'w \<Rightarrow> (exn + string) \<times> 'w"

definition translate_markdown ::
  "'w translator \<Rightarrow> string \<Rightarrow> 'w \<Rightarrow> (exn + string) \<times> 'w"
where
  "translate_markdown api_translate content w =
     (if content = [] \<or> strip content = [] then (Inr content, w)
      else
        (case preprocess_markdown content of
           (processed_content, footnotes) \<Rightarrow>
             (case api_translate processed_content ''Japanese'' w of
                (Inl e, w') \<Rightarrow>
                  (Inl (TranslationError (''Failed to translate markdown: '' @ str_exn e)), w')
              | (Inr translated_content, w') \<Rightarrow>
                  (Inr (postprocess_markdown translated_content footnotes), w'))))"

section \<open>Paths (\<open>pathlib\<close>)\<close>

text \<open>
  A path is the list of its components. \<open>p / name\<close> appends a component,
  \<open>p.relative_to(d)\<close> raises \<open>ValueError\<close> unless \<open>d\<close> is a leading part of \<open>p\<close>.
\<close>

type_synonym path = "string list"

definition relative_to :: "path \<Rightarrow> path \<Rightarrow> exn + path" where
  "relative_to p d =
     (if prefix d p then Inr (drop (length d) p)
      else Inl (Exception ''path is not in the subpath of the directory''))"

definition path_name :: "path \<Rightarrow> string" where
  "path_name p = (if p = [] then [] else last p)"

definition path_parent :: "path \<Rightarrow> path" where
  "path_parent p = butlast p"

text \<open>\<open>name.rfind('.')\<close>: the index of the last dot, if there is one.\<close>

fun rfind_dot :: "string \<Rightarrow> nat option" where
  "rfind_dot [] = None"
| "rfind_dot (c # cs) =
     (case rfind_dot cs of
        Some i \<Rightarrow> Some (Suc i)
      | None \<Rightarrow> if c = CHR ''.'' then Some 0 else None)"

text \<open>\<open>Path.stem\<close>: the name without its last suffix.\<close>

definition path_stem :: "path \<Rightarrow> string" where
  "path_stem p =
     (let name = path_name p
      in case rfind_dot name of
           Some i \<Rightarrow> if 0 < i \<and> i < length name - 1 then take i name else name
         | None \<Rightarrow> name)"

section \<open>File system collaborator (\<open>file_service.py\<close>)\<close>

text \<open>
  Enumeration, reading and writing are the collaborator's: each may raise, and writing
  changes the file system \<open>'fs\<close>. \<open>create_output_path\<close> is pure and modelled in full;
  \<open>output_dir_name\<close> is one path component, as \<open>main\<close> passes it.
\<close>

record 'fs file_service =
  find_markdown_files :: "path \<Rightarrow> 'fs \<Rightarrow> exn + path list"
  read_file :: "path \<Rightarrow> 'fs \<Rightarrow> exn + string"
  write_file :: "path \<Rightarrow> string \<Rightarrow> 'fs \<Rightarrow> exn option \<times> 'fs"

definition create_output_path :: "path \<Rightarrow> path \<Rightarrow> string \<Rightarrow> path" where
  "create_output_path source_file source_dir output_dir_name =
     (let relative_path =
            (case relative_to source_file source_dir of
               Inr rel \<Rightarrow> rel
             | Inl e \<Rightarrow> if path_name source_file = [] then [] else [path_name source_file])
      in source_dir @ [output_dir_name] @ relative_path)"

section \<open>Batch Orchestrator (\<open>orchestrator.py\<close>)\<close>

record TranslationResult =
  source_file :: path
  success :: bool
  error_message :: "string option"

text \<open>
  The translation of the file name inside \<open>_translate_single_file\<close>: the inner
  \<open>try\<close>/\<open>except Exception\<close>.
\<close>

definition translate_stem :: "'w translator \<Rightarrow> string \<Rightarrow> 'w \<Rightarrow> string \<times> 'w" where
  "translate_stem api_translate original_stem w =
     (case api_translate original_stem ''Japanese'' w of
        (Inr translated_stem, w') \<Rightarrow>
          (replace '':'' ''_'' (replace [CHR 0x5C] ''_'' (replace ''/'' ''_'' translated_stem)), w')
      | (Inl e, w') \<Rightarrow> (original_stem, w'))"

text \<open>The body of the outer \<open>try\<close> of \<open>_translate_single_file\<close>.\<close>

definition single_file_try ::
  "'fs file_service \<Rightarrow> 'w translator \<Rightarrow> path \<Rightarrow> path \<Rightarrow> string \<Rightarrow> 'fs \<times> 'w
     \<Rightarrow> exn option \<times> ('fs \<times> 'w)"
where
  "single_file_try fsv api_translate src source_dir output_dir_name world =
     (case world of (fs, w) \<Rightarrow>
        (case read_file fsv src fs of
           Inl e \<Rightarrow> (Some e, (fs, w))
         | Inr content \<Rightarrow>
             (case translate_markdown api_translate content w of
                (Inl e, w1) \<Rightarrow> (Some e, (fs, w1))
              | (Inr translated_content, w1) \<Rightarrow>
                  (case translate_stem api_translate (path_stem src) w1 of
                     (translated_stem, w2) \<Rightarrow>
                       (let output_path = create_output_path src source_dir output_dir_name;
                            output_path = path_parent output_path @ [translated_stem @ ''.md'']
                        in case write_file fsv output_path translated_content fs of
                             (Some e, fs') \<Rightarrow> (Some e, (fs', w2))
                           | (None, fs') \<Rightarrow>
                               (case relative_to output_path source_dir of
                                  Inl e \<Rightarrow> (Some e, (fs', w2))
                                | Inr rel \<Rightarrow> (None, (fs', w2))))))))"

text \<open>
  \<open>_translate_single_file\<close>. Its first line formats \<open>source_file.relative_to(source_dir)\<close>
  outside the \<open>try\<close>, so a file that is not under \<open>source_dir\<close> raises out of the method.
\<close>

definition translate_single_file ::
  "'fs file_service \<Rightarrow> 'w translator \<Rightarrow> path \<Rightarrow> path \<Rightarrow> string \<Rightarrow> 'fs \<times> 'w
     \<Rightarrow> (exn + TranslationResult) \<times> ('fs \<times> 'w)"
where
  "translate_single_file fsv api_translate src source_dir output_dir_name world =
     (case relative_to src source_dir of
        Inl e \<Rightarrow> (Inl e, world)
      | Inr rel \<Rightarrow>
          (case single_file_try fsv api_translate src source_dir output_dir_name world of
             (None, world') \<Rightarrow>
               (Inr \<lparr>source_file = src, success = True, error_message = None\<rparr>, world')
           | (Some e, world') \<Rightarrow>
               (Inr \<lparr>source_file = src, success = False, error_message = Some (str_exn e)\<rparr>,
                world')))"

text \<open>\<open>for source_file in markdown_files\<close>.\<close>

fun process_files ::
  "'fs file_service \<Rightarrow> 'w translator \<Rightarrow> path \<Rightarrow> string \<Rightarrow> path list \<Rightarrow> TranslationResult list
     \<Rightarrow> 'fs \<times> 'w \<Rightarrow> (exn + TranslationResult list) \<times> ('fs \<times> 'w)"
where
  "process_files fsv api_translate source_dir output_dir_name [] results world =
     (Inr results, world)"
| "process_files fsv api_translate source_dir output_dir_name (src # rest) results world =
     (case translate_single_file fsv api_translate src source_dir output_dir_name world of
        (Inl e, world') \<Rightarrow> (Inl e, world')
      | (Inr result, world') \<Rightarrow>
          process_files fsv api_translate source_dir output_dir_name rest (results @ [result])
            world')"

definition translate_directory ::
  "'fs file_service \<Rightarrow> 'w translator \<Rightarrow> path \<Rightarrow> string \<Rightarrow> 'fs \<times> 'w
     \<Rightarrow> (exn + TranslationResult list) \<times> ('fs \<times> 'w)"
where
  "translate_directory fsv api_translate source_dir output_dir_name world =
     (case find_markdown_files fsv source_dir (fst world) of
        Inl e \<Rightarrow> (Inr [], world)
      | Inr markdown_files \<Rightarrow>
          if markdown_files = [] then (Inr [], world)
          else process_files fsv api_translate source_dir output_dir_name markdown_files []
                 world)"

section \<open>Entry point (\<open>main.py\<close>)\<close>

text \<open>\<open>main\<close> from "Determine exit code based on results" on.\<close>

definition exit_code_of_results :: "TranslationResult list \<Rightarrow> int" where
  "exit_code_of_results results =
     (if results = [] then 0
      else
        (let failed_count = length (filter (\<lambda>r. \<not> success r) results)
         in if failed_count > 0 then 1 else 0))"

text \<open>
  \<open>main\<close> from "Execute translation" on, once arguments, credentials and components are
  there: an exception that leaves \<open>translate_directory\<close> is caught by \<open>main\<close>'s
  \<open>except Exception\<close> and gives exit code 1.
\<close>

definition main_translate ::
  "'fs file_service \<Rightarrow> 'w translator \<Rightarrow> path \<Rightarrow> 'fs \<times> 'w \<Rightarrow> int \<times> ('fs \<times> 'w)"
where
  "main_translate fsv api_translate source_dir world =
     (case translate_directory fsv api_translate source_dir ''jp'' world of
        (Inl e, world') \<Rightarrow> (1, world')
      | (Inr results, world') \<Rightarrow> (exit_code_of_results results, world'))"

section \<open>Notions of the specification\<close>

text \<open>
  A case-insensitive substring match, as the specification words it: at some position of
  the message, the next characters are those of \<open>sub\<close> up to case.
\<close>

fun contains_ci :: "string \<Rightarrow> string \<Rightarrow> bool" where
  "contains_ci sub [] = (sub = [])"
| "contains_ci sub (c # cs) =
     (lower (take (length sub) (c # cs)) = lower sub \<or> contains_ci sub cs)"

text \<open>The messages the specification lists as rate limiting.\<close>

definition indicates_rate_limit :: "string \<Rightarrow> bool" where
  "indicates_rate_limit msg =
     (contains_ci ''quota'' msg \<or> contains_ci ''rate limit'' msg \<or> contains_ci ''429'' msg
      \<or> contains_ci ''resource exhausted'' msg \<or> contains_ci ''resource_exhausted'' msg)"

text \<open>A response that "yields empty or absent text".\<close>

definition empty_response :: "response \<Rightarrow> bool" where
  "empty_response r = (r = NoResponse \<or> r = Response None \<or> r = Response (Some []))"

text \<open>
  The outcomes of one remote call that count as a transient-generic failure: an exception
  of the remote library whose message does not indicate rate limiting, or an empty response.
\<close>

fun generic_failure :: "api_outcome \<Rightarrow> bool" where
  "generic_failure (Raises (Exception msg)) = (\<not> indicates_rate_limit msg)"
| "generic_failure (Raises e) = False"
| "generic_failure (Returns r) = empty_response r"

text \<open>A failure of the remote call whose message indicates rate limiting.\<close>

fun rate_limited_failure :: "api_outcome \<Rightarrow> bool" where
  "rate_limited_failure (Raises (Exception msg)) = indicates_rate_limit msg"
| "rate_limited_failure out = False"

text \<open>
  The outcome the specification's steps give one document, in the world it is processed in:
  a read failure, a failure of the content translation or a write failure marks it failed
  with that error's text; otherwise it is marked successful. The file is written to
  \<open>source_root / output_subdir_name / <directory of the source, relative to source_root>\<close>
  under the translated (or, on fallback, original) base name with \<open>.md\<close>.
\<close>

definition outcome_by_steps ::
  "'fs file_service \<Rightarrow> 'w translator \<Rightarrow> path \<Rightarrow> string \<Rightarrow> path \<Rightarrow> 'fs \<times> 'w
     \<Rightarrow> TranslationResult"
where
  "outcome_by_steps fsv api_translate source_dir output_dir_name src world =
     (case world of (fs, w) \<Rightarrow>
        (case read_file fsv src fs of
           Inl e \<Rightarrow> \<lparr>source_file = src, success = False, error_message = Some (str_exn e)\<rparr>
         | Inr content \<Rightarrow>
             (case translate_markdown api_translate content w of
                (Inl e, w1) \<Rightarrow>
                  \<lparr>source_file = src, success = False, error_message = Some (str_exn e)\<rparr>
              | (Inr translated, w1) \<Rightarrow>
                  (let base_name = fst (translate_stem api_translate (path_stem src) w1);
                       output_path =
                         source_dir @ [output_dir_name]
                         @ butlast (drop (length source_dir) src) @ [base_name @ ''.md'']
                   in case fst (write_file fsv output_path translated fs) of
                        Some e \<Rightarrow>
                          \<lparr>source_file = src, success = False,
                           error_message = Some (str_exn e)\<rparr>
                      | None \<Rightarrow>
                          \<lparr>source_file = src, success = True, error_message = None\<rparr>))))"

text \<open>The world in which document \<open>i\<close> of a batch is processed: after the \<open>i\<close> before it.\<close>

definition world_before ::
  "'fs file_service \<Rightarrow> 'w translator \<Rightarrow> path \<Rightarrow> string \<Rightarrow> path list \<Rightarrow> nat \<Rightarrow> 'fs \<times> 'w
     \<Rightarrow> 'fs \<times> 'w"
where
  "world_before fsv api_translate source_dir output_dir_name docs i world =
     snd (process_files fsv api_translate source_dir output_dir_name (take i docs) [] world)"

section \<open>Auxiliary notions for the round trip\<close>

text \<open>
  The blocks the shielding loop cuts the lines into: a footnote block (marked \<open>True\<close>)
  with its lines, or one plain line.
\<close>

function blocks :: "string list \<Rightarrow> (bool \<times> string list) list" where
  "blocks [] = []"
| "blocks (line # rest) =
     (if footnote_def_pattern (strip line)
      then (True, line # fst (collect_continuation rest)) # blocks (snd (collect_continuation rest))
      else (False, [line]) # blocks rest)"
  by pat_completeness auto
termination
  by (relation "measure length") (auto simp: le_imp_less_Suc collect_continuation_length)

text \<open>The table the loop builds from the blocks.\<close>

definition footnote_texts :: "(bool \<times> string list) list \<Rightarrow> string list" where
  "footnote_texts bs = map (\<lambda>(f, b). join [NL] b) (filter fst bs)"

text \<open>
  The pieces of the text once the placeholders below \<open>m\<close> are restored, counting the
  footnote blocks from \<open>n\<close>.
\<close>

fun partly_restored :: "nat \<Rightarrow> nat \<Rightarrow> (bool \<times> string list) list \<Rightarrow> string list" where
  "partly_restored m n [] = []"
| "partly_restored m n ((f, b) # bs) =
     (if f then (if n < m then join [NL] b else placeholder n) # partly_restored m (Suc n) bs
      else join [NL] b # partly_restored m n bs)"

section \<open>Test fixtures\<close>

text \<open>
  A client whose remote service plays a script, one outcome per call (the \<open>side_effect\<close>
  lists of \<open>test_api_client.py\<close>), with the default configuration of \<open>main\<close>.
\<close>

definition scripted_client :: "api_outcome list \<Rightarrow> client" where
  "scripted_client script =
     \<lparr>generate_content =
        (\<lambda>n model prompt. if n < length script then script ! n else Raises (Exception [])),
      model_name = ''gemini-3-flash-preview'',
      max_retries = 3,
      retry_delay = 1,
      rate_limit_wait = 60\<rparr>"

definition fresh_state :: gateway_state where
  "fresh_state = \<lparr>calls = [], slept = []\<rparr>"

text \<open>
  An in-memory file system for the scenarios: a table of files, kept in path order.
  Enumeration lists the \<open>.md\<close> files under a directory and fails when nothing lies under
  it; files named in \<open>unreadable\<close> cannot be read and files named in \<open>unwritable\<close> cannot
  be written.
\<close>

type_synonym file_table = "(path \<times> string) list"

definition table_write :: "path \<Rightarrow> string \<Rightarrow> file_table \<Rightarrow> file_table" where
  "table_write p content fs =
     (if p \<in> fst ` set fs
      then map (\<lambda>(q, old). if q = p then (q, content) else (q, old)) fs
      else fs @ [(p, content)])"

definition table_service :: "string list \<Rightarrow> string list \<Rightarrow> file_table file_service" where
  "table_service unreadable unwritable =
     \<lparr>find_markdown_files =
        (\<lambda>d fs. if list_ex (\<lambda>(p, content). prefix d p) fs
                then Inr (filter (\<lambda>p. prefix d p \<and> suffix ''.md'' (path_name p)) (map fst fs))
                else Inl (Exception ''Directory does not exist'')),
      read_file =
        (\<lambda>p fs. if path_name p \<in> set unreadable then Inl (Exception ''Permission denied'')
                else (case map_of fs p of
                        None \<Rightarrow> Inl (Exception ''File does not exist'')
                      | Some content \<Rightarrow> Inr content)),
      write_file =
        (\<lambda>p content fs. if path_name p \<in> set unwritable
                        then (Some (Exception ''Disk full''), fs)
                        else (None, table_write p content fs))\<rparr>"

text \<open>
  A translator stub that returns \<open>[T] <input>\<close> and keeps the inputs it was given; and
  one that raises on every input that contains \<open>bad\<close>.
\<close>

definition stub_translator :: "string list translator" where
  "stub_translator src_text lang seen = (Inr (''[T] '' @ src_text), seen @ [src_text])"

definition picky_translator :: "string \<Rightarrow> string list translator" where
  "picky_translator bad src_text lang seen =
     (if contains bad src_text then (Inl (APIError ''API connection failed''), seen @ [src_text])
      else (Inr (''[T] '' @ src_text), seen @ [src_text]))"

text \<open>The document of the example scenario.\<close>

definition readme_content :: string where
  "readme_content = ''# Hello'' @ [NL, NL] @ ''Body[^1].'' @ [NL, NL] @ ''[^1]: Note.''"

section \<open>The gateway's retry loop\<close>

declare attempt_loop.simps [simp del]

lemma attempt_loop_done:
  "\<not> int attempt < max_retries c \<Longrightarrow>
   attempt_loop c prompt attempt le st =
     (case le of Some e \<Rightarrow> (Inl e, st)
      | None \<Rightarrow> (Inl (APIError ''Translation failed after all retries''), st))"
  by (simp add: attempt_loop.simps)

lemma attempt_loop_success:
  "int attempt < max_retries c \<Longrightarrow>
   try_body (generate_content c (length (calls st)) (model_name c) prompt) = Inr t \<Longrightarrow>
   attempt_loop c prompt attempt le st =
     (Inr t, st\<lparr>calls := calls st @ [(model_name c, prompt)]\<rparr>)"
  by (simp add: attempt_loop.simps)

lemma attempt_loop_retry:
  "int attempt < max_retries c \<Longrightarrow>
   try_body (generate_content c (length (calls st)) (model_name c) prompt) = Inl e \<Longrightarrow>
   except_clauses c attempt e = Retry r w \<Longrightarrow>
   attempt_loop c prompt attempt le st =
     attempt_loop c prompt (Suc attempt) (Some r)
       (st\<lparr>calls := calls st @ [(model_name c, prompt)], slept := slept st @ [w]\<rparr>)"
  by (simp add: attempt_loop.simps)

lemma attempt_loop_reraise:
  "int attempt < max_retries c \<Longrightarrow>
   try_body (generate_content c (length (calls st)) (model_name c) prompt) = Inl e \<Longrightarrow>
   except_clauses c attempt e = Reraise r \<Longrightarrow>
   attempt_loop c prompt attempt le st =
     (Inl r, st\<lparr>calls := calls st @ [(model_name c, prompt)]\<rparr>)"
  by (simp add: attempt_loop.simps)

lemma except_clauses_retry_bound:
  "except_clauses c attempt e = Retry r w \<Longrightarrow> int attempt < max_retries c - 1"
  by (cases e) (auto simp: Let_def split: if_splits)

lemma attempt_loop_calls:
  "\<exists>k. int k \<le> max 0 (max_retries c - int attempt) \<and>
       calls (snd (attempt_loop c prompt attempt le st)) =
         calls st @ replicate k (model_name c, prompt)"
proof (induction c prompt attempt le st rule: attempt_loop.induct)
  case (1 c prompt attempt last_exception st)
  show ?case
  proof (cases "int attempt < max_retries c")
    case False
    then show ?thesis
      by (auto simp: attempt_loop_done split: option.splits intro: exI [of _ 0])
  next
    case True
    let ?st1 = "st\<lparr>calls := calls st @ [(model_name c, prompt)]\<rparr>"
    show ?thesis
    proof (cases "try_body (generate_content c (length (calls st)) (model_name c) prompt)")
      case (Inr t)
      have "attempt_loop c prompt attempt last_exception st = (Inr t, ?st1)"
        by (rule attempt_loop_success [OF True Inr])
      then show ?thesis using True by (auto intro!: exI [of _ 1])
    next
      case (Inl e)
      show ?thesis
      proof (cases "except_clauses c attempt e")
        case (Reraise r)
        have "attempt_loop c prompt attempt last_exception st = (Inl r, ?st1)"
          by (rule attempt_loop_reraise [OF True Inl Reraise])
        then show ?thesis using True by (auto intro!: exI [of _ 1])
      next
        case (Retry r w)
        let ?st2 = "st\<lparr>calls := calls st @ [(model_name c, prompt)], slept := slept st @ [w]\<rparr>"
        have eq: "attempt_loop c prompt attempt last_exception st =
              attempt_loop c prompt (Suc attempt) (Some r) ?st2"
          by (rule attempt_loop_retry [OF True Inl Retry])
        have "\<exists>k. int k \<le> max 0 (max_retries c - int (Suc attempt)) \<and>
                calls (snd (attempt_loop c prompt (Suc attempt) (Some r) ?st2)) =
                calls ?st2 @ replicate k (model_name c, prompt)"
          using "1.IH" [OF True refl refl Inl Retry] by simp
        then obtain k where k: "int k \<le> max 0 (max_retries c - int (Suc attempt))"
          "calls (snd (attempt_loop c prompt (Suc attempt) (Some r) ?st2)) =
                calls ?st2 @ replicate k (model_name c, prompt)" by blast
        show ?thesis
          using k True unfolding eq
          by (intro exI [of _ "Suc k"]) (auto simp: replicate_app_Cons_same)
      qed
    qed
  qed
qed

lemma prefix_take_eq: "prefix xs ys \<longleftrightarrow> take (length xs) ys = xs"
  by (metis append_eq_conv_conj prefix_def append_take_drop_id)

lemma contains_lower:
  "lower sub = sub \<Longrightarrow> contains sub (lower s) = contains_ci sub s"
proof (induction s)
  case Nil
  then show ?case by (simp add: lower_def)
next
  case (Cons c cs)
  have "prefix sub (lower (c # cs)) \<longleftrightarrow> lower (take (length sub) (c # cs)) = lower sub"
  proof -
    have "lower (take (length sub) (c # cs)) = take (length sub) (lower (c # cs))"
      unfolding lower_def by (rule take_map [symmetric])
    then show ?thesis using Cons.prems by (simp only: prefix_take_eq)
  qed
  then show ?case using Cons by (simp add: lower_def)
qed

lemma lower_patterns:
  "lower ''quota'' = ''quota''" "lower ''rate limit'' = ''rate limit''" "lower ''429'' = ''429''"
  "lower ''resource exhausted'' = ''resource exhausted''"
  "lower ''resource_exhausted'' = ''resource_exhausted''"
  by (simp_all add: lower_def lower_char_def)

lemma classify_message:
  "(rate_limit_message (lower msg) \<or> resource_exhausted_message (lower msg))
     = indicates_rate_limit msg"
  unfolding rate_limit_message_def resource_exhausted_message_def indicates_rate_limit_def
  by (simp only: contains_lower [OF lower_patterns(1)] contains_lower [OF lower_patterns(2)]
      contains_lower [OF lower_patterns(3)] contains_lower [OF lower_patterns(4)]
      contains_lower [OF lower_patterns(5)] disj_assoc)

lemma except_clauses_Exception:
  "except_clauses c attempt (Exception msg) =
     (if indicates_rate_limit msg then
        (if int attempt < max_retries c - 1
         then Retry (RateLimitError (''API rate limit reached: '' @ msg)) (rate_limit_wait c)
         else Reraise (RateLimitError (''API rate limit reached: '' @ msg)))
      else
        (if int attempt < max_retries c - 1
         then Retry (APIError (''API call failed: '' @ msg)) (retry_delay c * 2 ^ attempt)
         else Reraise (APIError (''API call failed: '' @ msg))))"
  using classify_message [of msg] by (auto simp: Let_def)

lemma retry_run_ex:
  assumes "\<forall>i<k. \<exists>e r. try_body (generate_content c (length (calls st) + i) (model_name c) prompt) = Inl e
             \<and> except_clauses c (attempt + i) e = Retry r (w i)"
  shows "\<exists>le'. attempt_loop c prompt attempt le st =
         attempt_loop c prompt (attempt + k) le'
           (st\<lparr>calls := calls st @ replicate k (model_name c, prompt),
               slept := slept st @ map w [0..<k]\<rparr>)"
  using assms
proof (induction k)
  case 0
  show ?case by (intro exI [of _ le]) simp
next
  case (Suc k)
  let ?stk = "st\<lparr>calls := calls st @ replicate k (model_name c, prompt),
               slept := slept st @ map w [0..<k]\<rparr>"
  from Suc.prems obtain e r where
    e: "try_body (generate_content c (length (calls st) + k) (model_name c) prompt) = Inl e"
       "except_clauses c (attempt + k) e = Retry r (w k)"
    by blast
  have bound: "int (attempt + k) < max_retries c"
    using except_clauses_retry_bound [OF e(2)] by simp
  from Suc obtain le' where
    "attempt_loop c prompt attempt le st = attempt_loop c prompt (attempt + k) le' ?stk"
    by auto
  also have "\<dots> = attempt_loop c prompt (Suc (attempt + k)) (Some r)
       (?stk\<lparr>calls := calls ?stk @ [(model_name c, prompt)], slept := slept ?stk @ [w k]\<rparr>)"
    by (rule attempt_loop_retry [OF bound _ e(2)]) (simp add: e(1))
  also have "\<dots> = attempt_loop c prompt (attempt + Suc k) (Some r)
           (st\<lparr>calls := calls st @ replicate (Suc k) (model_name c, prompt),
               slept := slept st @ map w [0..<Suc k]\<rparr>)"
    by (simp add: replicate_append_same)
  finally show ?case by blast
qed

lemma generic_failure_try_body:
  "generic_failure out \<Longrightarrow>
   (\<exists>msg. out = Raises (Exception msg) \<and> \<not> indicates_rate_limit msg
          \<and> try_body out = Inl (Exception msg))
   \<or> ((\<exists>r. out = Returns r \<and> empty_response r)
       \<and> try_body out = Inl (APIError ''API returned empty response''))"
  by (cases out rule: generic_failure.cases) (auto simp: empty_response_def)

lemma generic_failure_retry:
  assumes "generic_failure out" "int attempt < max_retries c - 1"
  shows "\<exists>e r. try_body out = Inl e \<and>
           except_clauses c attempt e = Retry r (retry_delay c * 2 ^ attempt)"
  using generic_failure_try_body [OF assms(1)] assms(2)
  by (auto simp: except_clauses_Exception simp del: except_clauses.simps(4))

lemma generic_retries:
  assumes "\<forall>i<k. generic_failure (generate_content c (length (calls st) + i) (model_name c) prompt)"
    and "int k < max_retries c"
  shows "\<exists>le'. attempt_loop c prompt 0 le st =
         attempt_loop c prompt k le'
           (st\<lparr>calls := calls st @ replicate k (model_name c, prompt),
               slept := slept st @ map (\<lambda>a. retry_delay c * 2 ^ a) [0..<k]\<rparr>)"
proof -
  have "\<forall>i<k. \<exists>e r. try_body (generate_content c (length (calls st) + i) (model_name c) prompt) = Inl e
             \<and> except_clauses c (0 + i) e = Retry r (retry_delay c * 2 ^ i)"
  proof (intro allI impI)
    fix i assume "i < k"
    then have "int i < max_retries c - 1" using assms(2) by simp
    with assms(1) \<open>i < k\<close> show "\<exists>e r. try_body (generate_content c (length (calls st) + i) (model_name c) prompt) = Inl e
             \<and> except_clauses c (0 + i) e = Retry r (retry_delay c * 2 ^ i)"
      using generic_failure_retry by simp
  qed
  from retry_run_ex [OF this, of le] show ?thesis by simp
qed

lemma translate_text_nonblank:
  "strip text \<noteq> [] \<Longrightarrow>
   translate_text c text lang st = attempt_loop c (make_prompt text lang) 0 None st"
  by (auto simp: translate_text_def strip_def)

lemma translate_text_calls:
  "\<exists>j. int j \<le> max 0 (max_retries c) \<and>
       calls (snd (translate_text c text lang st)) =
         calls st @ replicate j (model_name c, make_prompt text lang)"
proof (cases "text = [] \<or> strip text = []")
  case True
  then show ?thesis by (auto simp: translate_text_def intro!: exI [of _ 0])
next
  case False
  then show ?thesis
    using attempt_loop_calls [of c 0 "make_prompt text lang" None st]
    by (simp add: translate_text_def)
qed

lemma success_after_generic_failures:
  assumes "int k < max_retries c"
    and "\<forall>i<k. generic_failure (generate_content c (length (calls st) + i) (model_name c) prompt)"
    and "generate_content c (length (calls st) + k) (model_name c) prompt
           = Returns (Response (Some t))"
    and "t \<noteq> []"
  shows "attempt_loop c prompt 0 le st =
     (Inr (strip t),
      st\<lparr>calls := calls st @ replicate (Suc k) (model_name c, prompt),
          slept := slept st @ map (\<lambda>a. retry_delay c * 2 ^ a) [0..<k]\<rparr>)"
proof -
  let ?stk = "st\<lparr>calls := calls st @ replicate k (model_name c, prompt),
          slept := slept st @ map (\<lambda>a. retry_delay c * 2 ^ a) [0..<k]\<rparr>"
  from generic_retries [OF assms(2) assms(1)] obtain le' where
    "attempt_loop c prompt 0 le st = attempt_loop c prompt k le' ?stk" by blast
  also have "\<dots> = (Inr (strip t), ?stk\<lparr>calls := calls ?stk @ [(model_name c, prompt)]\<rparr>)"
    by (rule attempt_loop_success [OF assms(1)]) (simp add: assms(3,4))
  finally show ?thesis by (simp add: replicate_append_same)
qed

lemma exhausted_after_generic_failures:
  assumes "max_retries c = int (Suc k)"
    and "\<forall>i<k. generic_failure (generate_content c (length (calls st) + i) (model_name c) prompt)"
    and "try_body (generate_content c (length (calls st) + k) (model_name c) prompt) = Inl e"
    and "except_clauses c k e = Reraise r"
  shows "attempt_loop c prompt 0 le st =
     (Inl r,
      st\<lparr>calls := calls st @ replicate (Suc k) (model_name c, prompt),
          slept := slept st @ map (\<lambda>a. retry_delay c * 2 ^ a) [0..<k]\<rparr>)"
proof -
  let ?stk = "st\<lparr>calls := calls st @ replicate k (model_name c, prompt),
          slept := slept st @ map (\<lambda>a. retry_delay c * 2 ^ a) [0..<k]\<rparr>"
  have bound: "int k < max_retries c" using assms(1) by simp
  from generic_retries [OF assms(2) bound] obtain le' where
    "attempt_loop c prompt 0 le st = attempt_loop c prompt k le' ?stk" by blast
  also have "\<dots> = (Inl r, ?stk\<lparr>calls := calls ?stk @ [(model_name c, prompt)]\<rparr>)"
    by (rule attempt_loop_reraise [OF bound _ assms(4)]) (simp add: assms(3))
  finally show ?thesis by (simp add: replicate_append_same)
qed

text \<open>
  Claim C3. On an input that is not blank (a blank one makes no call), \<open>translate_text\<close>
  makes at most \<open>max_retries\<close> remote calls, all with the same prompt. When the first
  \<open>k < max_retries\<close> calls fail with exceptions that do not indicate rate limiting and the
  next one returns a non-empty text, the result is that text stripped, after exactly
  \<open>k + 1\<close> calls and the waits \<open>retry_delay * 2 ^ attempt\<close> for \<open>attempt = 0, ..., k - 1\<close>.
  When all \<open>max_retries\<close> calls fail so, it raises \<open>APIError\<close> with the message of the last
  failure, after \<open>max_retries\<close> calls and \<open>max_retries - 1\<close> such waits.
\<close>

theorem generic_failures_backoff:
  assumes "strip text \<noteq> []"
  shows "(\<exists>j. int j \<le> max 0 (max_retries c) \<and>
            calls (snd (translate_text c text lang st)) =
              calls st @ replicate j (model_name c, make_prompt text lang))
    \<and> (\<forall>k msg t.
          int k < max_retries c
          \<and> (\<forall>i<k. generate_content c (length (calls st) + i) (model_name c)
                       (make_prompt text lang) = Raises (Exception (msg i))
                     \<and> \<not> indicates_rate_limit (msg i))
          \<and> generate_content c (length (calls st) + k) (model_name c)
                (make_prompt text lang) = Returns (Response (Some t))
          \<and> t \<noteq> []
          \<longrightarrow> translate_text c text lang st =
                (Inr (strip t),
                 st\<lparr>calls := calls st @ replicate (Suc k) (model_name c, make_prompt text lang),
                     slept := slept st @ map (\<lambda>attempt. retry_delay c * 2 ^ attempt) [0..<k]\<rparr>))
    \<and> (\<forall>k msg.
          max_retries c = int (Suc k)
          \<and> (\<forall>i<Suc k. generate_content c (length (calls st) + i) (model_name c)
                       (make_prompt text lang) = Raises (Exception (msg i))
                     \<and> \<not> indicates_rate_limit (msg i))
          \<longrightarrow> translate_text c text lang st =
                (Inl (APIError (''API call failed: '' @ msg k)),
                 st\<lparr>calls := calls st @ replicate (Suc k) (model_name c, make_prompt text lang),
                     slept := slept st @ map (\<lambda>attempt. retry_delay c * 2 ^ attempt) [0..<k]\<rparr>))"
proof (intro conjI allI impI)
  show "\<exists>j. int j \<le> max 0 (max_retries c) \<and>
            calls (snd (translate_text c text lang st)) =
              calls st @ replicate j (model_name c, make_prompt text lang)"
    by (rule translate_text_calls)
next
  fix k msg t
  assume h: "int k < max_retries c
          \<and> (\<forall>i<k. generate_content c (length (calls st) + i) (model_name c)
                       (make_prompt text lang) = Raises (Exception (msg i))
                     \<and> \<not> indicates_rate_limit (msg i))
          \<and> generate_content c (length (calls st) + k) (model_name c)
                (make_prompt text lang) = Returns (Response (Some t))
          \<and> t \<noteq> []"
  then have "\<forall>i<k. generic_failure (generate_content c (length (calls st) + i) (model_name c)
                       (make_prompt text lang))"
    by simp
  from success_after_generic_failures [OF _ this, of t None] h
  show "translate_text c text lang st =
                (Inr (strip t),
                 st\<lparr>calls := calls st @ replicate (Suc k) (model_name c, make_prompt text lang),
                     slept := slept st @ map (\<lambda>attempt. retry_delay c * 2 ^ attempt) [0..<k]\<rparr>)"
    by (simp add: translate_text_nonblank [OF assms])
next
  fix k msg
  assume h: "max_retries c = int (Suc k)
          \<and> (\<forall>i<Suc k. generate_content c (length (calls st) + i) (model_name c)
                       (make_prompt text lang) = Raises (Exception (msg i))
                     \<and> \<not> indicates_rate_limit (msg i))"
  then have g: "\<forall>i<k. generic_failure (generate_content c (length (calls st) + i) (model_name c)
                       (make_prompt text lang))"
    by simp
  have last: "try_body (generate_content c (length (calls st) + k) (model_name c)
                (make_prompt text lang)) = Inl (Exception (msg k))"
     "\<not> indicates_rate_limit (msg k)"
    using h by simp_all
  have "except_clauses c k (Exception (msg k)) = Reraise (APIError (''API call failed: '' @ msg k))"
    using h last(2) by (simp add: except_clauses_Exception del: except_clauses.simps)
  from exhausted_after_generic_failures [OF _ g last(1) this, of None] h
  show "translate_text c text lang st =
                (Inl (APIError (''API call failed: '' @ msg k)),
                 st\<lparr>calls := calls st @ replicate (Suc k) (model_name c, make_prompt text lang),
                     slept := slept st @ map (\<lambda>attempt. retry_delay c * 2 ^ attempt) [0..<k]\<rparr>)"
    by (simp add: translate_text_nonblank [OF assms])
qed

lemma not_rate_limit_examples:
  "\<not> indicates_rate_limit ''Temporary error''"
  "\<not> indicates_rate_limit ''Persistent error''"
  by (simp_all add: indicates_rate_limit_def lower_def lower_char_def)

lemma strip_Hello: "strip ''Hello'' = ''Hello''"
  by (simp add: strip_def is_space_def)

lemma strip_Success: "strip ''Success'' = ''Success''"
  by (simp add: strip_def is_space_def)

theorem generic_failures_backoff_witness:
  "strip ''Hello'' \<noteq> []
   \<and> translate_text
        (scripted_client [Raises (Exception ''Temporary error''),
           Raises (Exception ''Temporary error''), Returns (Response (Some ''Success''))])
        ''Hello'' ''Japanese'' fresh_state
      = (Inr ''Success'',
         \<lparr>calls = replicate 3 (''gemini-3-flash-preview'', make_prompt ''Hello'' ''Japanese''),
          slept = [1, 2]\<rparr>)
   \<and> translate_text (scripted_client (replicate 3 (Raises (Exception ''Persistent error''))))
        ''Hello'' ''Japanese'' fresh_state
      = (Inl (APIError ''API call failed: Persistent error''),
         \<lparr>calls = replicate 3 (''gemini-3-flash-preview'', make_prompt ''Hello'' ''Japanese''),
          slept = [1, 2]\<rparr>)"
proof -
  have h: "strip ''Hello'' \<noteq> []" by (simp add: strip_Hello)
  let ?flaky = "scripted_client [Raises (Exception ''Temporary error''),
           Raises (Exception ''Temporary error''), Returns (Response (Some ''Success''))]"
  let ?failing = "scripted_client (replicate 3 (Raises (Exception ''Persistent error'')))"
  have a: "translate_text ?flaky ''Hello'' ''Japanese'' fresh_state
      = (Inr ''Success'',
         \<lparr>calls = replicate 3 (''gemini-3-flash-preview'', make_prompt ''Hello'' ''Japanese''),
          slept = [1, 2]\<rparr>)"
    using generic_failures_backoff [OF h, where c = ?flaky and lang = "''Japanese''"
        and st = fresh_state, THEN conjunct2, THEN conjunct1, rule_format,
        where k = "Suc (Suc 0)" and msg = "\<lambda>i. ''Temporary error''" and t = "''Success''"]
    by (simp add: scripted_client_def fresh_state_def not_rate_limit_examples strip_Success
        All_less_Suc numeral_3_eq_3)
  have b: "translate_text ?failing ''Hello'' ''Japanese'' fresh_state
      = (Inl (APIError ''API call failed: Persistent error''),
         \<lparr>calls = replicate 3 (''gemini-3-flash-preview'', make_prompt ''Hello'' ''Japanese''),
          slept = [1, 2]\<rparr>)"
    using generic_failures_backoff [OF h, where c = ?failing and lang = "''Japanese''"
        and st = fresh_state, THEN conjunct2, THEN conjunct2, rule_format,
        where k = "Suc (Suc 0)" and msg = "\<lambda>i. ''Persistent error''"]
    by (simp add: scripted_client_def fresh_state_def not_rate_limit_examples
        All_less_Suc numeral_3_eq_3)
  from h a b show ?thesis by blast
qed

lemma rate_limited_failure_retry:
  assumes "rate_limited_failure out" "int attempt < max_retries c - 1"
  shows "\<exists>e r. try_body out = Inl e \<and>
           except_clauses c attempt e = Retry r (rate_limit_wait c)"
  using assms
  by (cases out rule: rate_limited_failure.cases)
     (auto simp: except_clauses_Exception simp del: except_clauses.simps(4))

lemma rate_limited_retries:
  assumes "\<forall>i<k. rate_limited_failure
             (generate_content c (length (calls st) + i) (model_name c) prompt)"
    and "int k < max_retries c"
  shows "\<exists>le'. attempt_loop c prompt 0 le st =
         attempt_loop c prompt k le'
           (st\<lparr>calls := calls st @ replicate k (model_name c, prompt),
               slept := slept st @ replicate k (rate_limit_wait c)\<rparr>)"
proof -
  have "\<forall>i<k. \<exists>e r. try_body (generate_content c (length (calls st) + i) (model_name c) prompt) = Inl e
             \<and> except_clauses c (0 + i) e = Retry r ((\<lambda>i. rate_limit_wait c) i)"
  proof (intro allI impI)
    fix i assume "i < k"
    then have "int i < max_retries c - 1" using assms(2) by simp
    with assms(1) \<open>i < k\<close> show "\<exists>e r. try_body (generate_content c (length (calls st) + i) (model_name c) prompt) = Inl e
             \<and> except_clauses c (0 + i) e = Retry r ((\<lambda>i. rate_limit_wait c) i)"
      using rate_limited_failure_retry by simp
  qed
  from retry_run_ex [OF this, of le] show ?thesis by (simp add: map_replicate_const)
qed

text \<open>
  Claim C4. A failure of the remote call (an exception of the remote client library, which
  reaches the \<open>except Exception\<close> clause; the two clauses before it take only the
  application's own \<open>RateLimitError\<close> and \<open>APIError\<close>) is classified by its message alone:
  it is rate-limited exactly when the message contains, in any case, one of "quota",
  "rate limit", "429", "resource exhausted", "resource_exhausted". A rate-limited failure
  waits \<open>rate_limit_wait\<close> before the next attempt and raises \<open>RateLimitError\<close> on the last
  one; every other failure waits \<open>retry_delay * 2 ^ attempt\<close> and raises \<open>APIError\<close> on the
  last one. So a call whose \<open>max_retries\<close> attempts all fail rate-limited raises
  \<open>RateLimitError\<close> after \<open>max_retries - 1\<close> waits of \<open>rate_limit_wait\<close>.
\<close>

theorem rate_limit_classification:
  "(indicates_rate_limit msg \<longrightarrow>
      except_clauses c attempt (Exception msg) =
        (if int attempt < max_retries c - 1
         then Retry (RateLimitError (''API rate limit reached: '' @ msg)) (rate_limit_wait c)
         else Reraise (RateLimitError (''API rate limit reached: '' @ msg))))
   \<and> (\<not> indicates_rate_limit msg \<longrightarrow>
      except_clauses c attempt (Exception msg) =
        (if int attempt < max_retries c - 1
         then Retry (APIError (''API call failed: '' @ msg)) (retry_delay c * 2 ^ attempt)
         else Reraise (APIError (''API call failed: '' @ msg))))
   \<and> (\<forall>k msgs.
        strip src_text \<noteq> [] \<and> max_retries c = int (Suc k)
        \<and> (\<forall>i<Suc k. generate_content c (length (calls st) + i) (model_name c)
                         (make_prompt src_text lang) = Raises (Exception (msgs i))
                       \<and> indicates_rate_limit (msgs i))
        \<longrightarrow> translate_text c src_text lang st =
              (Inl (RateLimitError (''API rate limit reached: '' @ msgs k)),
               st\<lparr>calls := calls st @ replicate (Suc k) (model_name c, make_prompt src_text lang),
                   slept := slept st @ replicate k (rate_limit_wait c)\<rparr>))"
proof (intro conjI allI impI)
  assume "indicates_rate_limit msg"
  then show "except_clauses c attempt (Exception msg) =
        (if int attempt < max_retries c - 1
         then Retry (RateLimitError (''API rate limit reached: '' @ msg)) (rate_limit_wait c)
         else Reraise (RateLimitError (''API rate limit reached: '' @ msg)))"
    by (simp add: except_clauses_Exception del: except_clauses.simps)
next
  assume "\<not> indicates_rate_limit msg"
  then show "except_clauses c attempt (Exception msg) =
        (if int attempt < max_retries c - 1
         then Retry (APIError (''API call failed: '' @ msg)) (retry_delay c * 2 ^ attempt)
         else Reraise (APIError (''API call failed: '' @ msg)))"
    by (simp add: except_clauses_Exception del: except_clauses.simps)
next
  fix k msgs
  let ?p = "make_prompt src_text lang"
  assume h: "strip src_text \<noteq> [] \<and> max_retries c = int (Suc k)
        \<and> (\<forall>i<Suc k. generate_content c (length (calls st) + i) (model_name c)
                         (make_prompt src_text lang) = Raises (Exception (msgs i))
                       \<and> indicates_rate_limit (msgs i))"
  let ?stk = "st\<lparr>calls := calls st @ replicate k (model_name c, ?p),
          slept := slept st @ replicate k (rate_limit_wait c)\<rparr>"
  have bound: "int k < max_retries c" using h by simp
  have "\<forall>i<k. rate_limited_failure (generate_content c (length (calls st) + i) (model_name c) ?p)"
    using h by simp
  from rate_limited_retries [OF this bound] obtain le' where
    "attempt_loop c ?p 0 None st = attempt_loop c ?p k le' ?stk" by blast
  also have "\<dots> = (Inl (RateLimitError (''API rate limit reached: '' @ msgs k)),
       ?stk\<lparr>calls := calls ?stk @ [(model_name c, ?p)]\<rparr>)"
  proof (rule attempt_loop_reraise [OF bound])
    show "try_body (generate_content c (length (calls ?stk)) (model_name c) ?p)
          = Inl (Exception (msgs k))"
      using h by simp
    show "except_clauses c k (Exception (msgs k)) =
          Reraise (RateLimitError (''API rate limit reached: '' @ msgs k))"
      using h by (simp add: except_clauses_Exception del: except_clauses.simps)
  qed
  finally show "translate_text c src_text lang st =
              (Inl (RateLimitError (''API rate limit reached: '' @ msgs k)),
               st\<lparr>calls := calls st @ replicate (Suc k) (model_name c, make_prompt src_text lang),
                   slept := slept st @ replicate k (rate_limit_wait c)\<rparr>)"
    using h by (simp add: translate_text_nonblank replicate_append_same)
qed

lemma rate_limit_examples:
  "indicates_rate_limit ''Quota exceeded''"
  "\<not> indicates_rate_limit ''API connection failed''"
  by (simp_all add: indicates_rate_limit_def lower_def lower_char_def char_of_def
      bit_Suc_0_iff)

theorem rate_limit_classification_witness:
  "indicates_rate_limit ''Quota exceeded''
   \<and> except_clauses (scripted_client []) 0 (Exception ''Quota exceeded'') =
       Retry (RateLimitError ''API rate limit reached: Quota exceeded'') 60
   \<and> \<not> indicates_rate_limit ''API connection failed''
   \<and> except_clauses (scripted_client []) 1 (Exception ''API connection failed'') =
       Retry (APIError ''API call failed: API connection failed'') 2
   \<and> translate_text (scripted_client (replicate 3 (Raises (Exception ''Quota exceeded''))))
        ''Hello'' ''Japanese'' fresh_state
      = (Inl (RateLimitError ''API rate limit reached: Quota exceeded''),
         \<lparr>calls = replicate 3 (''gemini-3-flash-preview'', make_prompt ''Hello'' ''Japanese''),
          slept = [60, 60]\<rparr>)"
proof -
  let ?limited = "scripted_client (replicate 3 (Raises (Exception ''Quota exceeded'')))"
  have a: "except_clauses (scripted_client []) 0 (Exception ''Quota exceeded'') =
       Retry (RateLimitError ''API rate limit reached: Quota exceeded'') 60"
    using rate_limit_classification [where msg = "''Quota exceeded''" and c = "scripted_client []"
        and attempt = 0, THEN conjunct1] rate_limit_examples(1)
    by (simp add: scripted_client_def del: except_clauses.simps)
  have b: "except_clauses (scripted_client []) 1 (Exception ''API connection failed'') =
       Retry (APIError ''API call failed: API connection failed'') 2"
    using rate_limit_classification [where msg = "''API connection failed''"
        and c = "scripted_client []" and attempt = 1, THEN conjunct2, THEN conjunct1]
      rate_limit_examples(2)
    by (simp add: scripted_client_def del: except_clauses.simps)
  have c: "translate_text ?limited ''Hello'' ''Japanese'' fresh_state
      = (Inl (RateLimitError ''API rate limit reached: Quota exceeded''),
         \<lparr>calls = replicate 3 (''gemini-3-flash-preview'', make_prompt ''Hello'' ''Japanese''),
          slept = [60, 60]\<rparr>)"
    using rate_limit_classification [where c = ?limited and src_text = "''Hello''"
        and lang = "''Japanese''" and st = fresh_state, THEN conjunct2, THEN conjunct2,
        rule_format, where k = "Suc (Suc 0)" and msgs = "\<lambda>i. ''Quota exceeded''"]
    by (simp add: scripted_client_def fresh_state_def rate_limit_examples strip_Hello
        All_less_Suc numeral_3_eq_3)
  from a b c rate_limit_examples show ?thesis by blast
qed

text \<open>
  Claim C9. A response with empty or absent text raises
  \<open>APIError("API returned empty response")\<close> inside the \<open>try\<close>, and the handler treats it as
  it treats a generic failure: it waits \<open>retry_delay * 2 ^ attempt\<close> and goes on, or raises
  on the last attempt. Empty responses and generic failures share one attempt budget: after
  \<open>k < max_retries\<close> of them, in any mix, a success returns its stripped text with the
  backoff waits; and when the last of \<open>max_retries\<close> such attempts is an empty response,
  the call raises that \<open>APIError\<close>.
\<close>

theorem empty_response_retried_as_generic:
  "(empty_response r \<longrightarrow>
      try_body (Returns r) = Inl (APIError ''API returned empty response''))
   \<and> except_clauses c attempt (APIError ''API returned empty response'') =
        (if int attempt < max_retries c - 1
         then Retry (APIError ''API returned empty response'') (retry_delay c * 2 ^ attempt)
         else Reraise (APIError ''API returned empty response''))
   \<and> (\<forall>k t.
        strip src_text \<noteq> [] \<and> int k < max_retries c
        \<and> (\<forall>i<k. generic_failure (generate_content c (length (calls st) + i) (model_name c)
                       (make_prompt src_text lang)))
        \<and> generate_content c (length (calls st) + k) (model_name c)
              (make_prompt src_text lang) = Returns (Response (Some t))
        \<and> t \<noteq> []
        \<longrightarrow> translate_text c src_text lang st =
              (Inr (strip t),
               st\<lparr>calls := calls st @ replicate (Suc k) (model_name c, make_prompt src_text lang),
                   slept := slept st @ map (\<lambda>attempt. retry_delay c * 2 ^ attempt) [0..<k]\<rparr>))
   \<and> (\<forall>k r'.
        strip src_text \<noteq> [] \<and> max_retries c = int (Suc k)
        \<and> (\<forall>i<k. generic_failure (generate_content c (length (calls st) + i) (model_name c)
                       (make_prompt src_text lang)))
        \<and> generate_content c (length (calls st) + k) (model_name c)
              (make_prompt src_text lang) = Returns r'
        \<and> empty_response r'
        \<longrightarrow> translate_text c src_text lang st =
              (Inl (APIError ''API returned empty response''),
               st\<lparr>calls := calls st @ replicate (Suc k) (model_name c, make_prompt src_text lang),
                   slept := slept st @ map (\<lambda>attempt. retry_delay c * 2 ^ attempt) [0..<k]\<rparr>))"
proof (intro conjI allI impI)
  assume "empty_response r"
  then show "try_body (Returns r) = Inl (APIError ''API returned empty response'')"
    by (auto simp: empty_response_def)
next
  show "except_clauses c attempt (APIError ''API returned empty response'') =
        (if int attempt < max_retries c - 1
         then Retry (APIError ''API returned empty response'') (retry_delay c * 2 ^ attempt)
         else Reraise (APIError ''API returned empty response''))"
    by simp
next
  fix k t
  assume h: "strip src_text \<noteq> [] \<and> int k < max_retries c
        \<and> (\<forall>i<k. generic_failure (generate_content c (length (calls st) + i) (model_name c)
                       (make_prompt src_text lang)))
        \<and> generate_content c (length (calls st) + k) (model_name c)
              (make_prompt src_text lang) = Returns (Response (Some t))
        \<and> t \<noteq> []"
  then have "attempt_loop c (make_prompt src_text lang) 0 None st =
     (Inr (strip t),
      st\<lparr>calls := calls st @ replicate (Suc k) (model_name c, make_prompt src_text lang),
          slept := slept st @ map (\<lambda>a. retry_delay c * 2 ^ a) [0..<k]\<rparr>)"
    by (intro success_after_generic_failures) simp_all
  with h show "translate_text c src_text lang st =
              (Inr (strip t),
               st\<lparr>calls := calls st @ replicate (Suc k) (model_name c, make_prompt src_text lang),
                   slept := slept st @ map (\<lambda>attempt. retry_delay c * 2 ^ attempt) [0..<k]\<rparr>)"
    by (simp add: translate_text_nonblank)
next
  fix k r'
  assume h: "strip src_text \<noteq> [] \<and> max_retries c = int (Suc k)
        \<and> (\<forall>i<k. generic_failure (generate_content c (length (calls st) + i) (model_name c)
                       (make_prompt src_text lang)))
        \<and> generate_content c (length (calls st) + k) (model_name c)
              (make_prompt src_text lang) = Returns r'
        \<and> empty_response r'"
  have tb: "try_body (generate_content c (length (calls st) + k) (model_name c)
              (make_prompt src_text lang)) = Inl (APIError ''API returned empty response'')"
    using h by (auto simp: empty_response_def)
  have ec: "except_clauses c k (APIError ''API returned empty response'')
            = Reraise (APIError ''API returned empty response'')"
    using h by simp
  have "attempt_loop c (make_prompt src_text lang) 0 None st =
     (Inl (APIError ''API returned empty response''),
      st\<lparr>calls := calls st @ replicate (Suc k) (model_name c, make_prompt src_text lang),
          slept := slept st @ map (\<lambda>a. retry_delay c * 2 ^ a) [0..<k]\<rparr>)"
    using h by (intro exhausted_after_generic_failures [OF _ _ tb ec]) simp_all
  with h show "translate_text c src_text lang st =
              (Inl (APIError ''API returned empty response''),
               st\<lparr>calls := calls st @ replicate (Suc k) (model_name c, make_prompt src_text lang),
                   slept := slept st @ map (\<lambda>attempt. retry_delay c * 2 ^ attempt) [0..<k]\<rparr>)"
    by (simp add: translate_text_nonblank)
qed

theorem empty_response_retried_as_generic_witness:
  "empty_response (Response (Some []))
   \<and> try_body (Returns (Response (Some []))) = Inl (APIError ''API returned empty response'')
   \<and> translate_text
        (scripted_client [Returns (Response (Some [])), Raises (Exception ''Temporary error''),
           Returns (Response (Some ''Success''))])
        ''Hello'' ''Japanese'' fresh_state
      = (Inr ''Success'',
         \<lparr>calls = replicate 3 (''gemini-3-flash-preview'', make_prompt ''Hello'' ''Japanese''),
          slept = [1, 2]\<rparr>)
   \<and> translate_text (scripted_client (replicate 3 (Returns (Response (Some [])))))
        ''Hello'' ''Japanese'' fresh_state
      = (Inl (APIError ''API returned empty response''),
         \<lparr>calls = replicate 3 (''gemini-3-flash-preview'', make_prompt ''Hello'' ''Japanese''),
          slept = [1, 2]\<rparr>)"
proof -
  let ?mixed = "scripted_client [Returns (Response (Some [])),
      Raises (Exception ''Temporary error''), Returns (Response (Some ''Success''))]"
  let ?empty = "scripted_client (replicate 3 (Returns (Response (Some []))))"
  have e: "empty_response (Response (Some []))" by (simp add: empty_response_def)
  have a: "try_body (Returns (Response (Some []))) = Inl (APIError ''API returned empty response'')"
    using empty_response_retried_as_generic [where r = "Response (Some [])", THEN conjunct1] e
    by blast
  have b: "translate_text ?mixed ''Hello'' ''Japanese'' fresh_state
      = (Inr ''Success'',
         \<lparr>calls = replicate 3 (''gemini-3-flash-preview'', make_prompt ''Hello'' ''Japanese''),
          slept = [1, 2]\<rparr>)"
    using empty_response_retried_as_generic [where c = ?mixed and src_text = "''Hello''"
        and lang = "''Japanese''" and st = fresh_state,
        THEN conjunct2, THEN conjunct2, THEN conjunct1, rule_format,
        where k = "Suc (Suc 0)" and t = "''Success''"]
    by (simp add: scripted_client_def fresh_state_def not_rate_limit_examples strip_Success
        strip_Hello empty_response_def All_less_Suc numeral_3_eq_3)
  have c: "translate_text ?empty ''Hello'' ''Japanese'' fresh_state
      = (Inl (APIError ''API returned empty response''),
         \<lparr>calls = replicate 3 (''gemini-3-flash-preview'', make_prompt ''Hello'' ''Japanese''),
          slept = [1, 2]\<rparr>)"
    using empty_response_retried_as_generic [where c = ?empty and src_text = "''Hello''"
        and lang = "''Japanese''" and st = fresh_state,
        THEN conjunct2, THEN conjunct2, THEN conjunct2, rule_format,
        where k = "Suc (Suc 0)" and r' = "Response (Some [])"]
    by (simp add: scripted_client_def fresh_state_def strip_Hello empty_response_def
        All_less_Suc numeral_3_eq_3)
  from e a b c show ?thesis by blast
qed

section \<open>What the gateway returns\<close>

lemma try_body_Inr:
  "try_body out = Inr r \<Longrightarrow> \<exists>t. out = Returns (Response (Some t)) \<and> t \<noteq> [] \<and> r = strip t"
  by (cases out rule: try_body.cases) (auto split: if_splits)

lemma attempt_loop_Inr:
  "attempt_loop c prompt attempt le st = (Inr r, st') \<Longrightarrow>
   \<exists>t. generate_content c (length (calls st') - 1) (model_name c) prompt
         = Returns (Response (Some t)) \<and> t \<noteq> [] \<and> r = strip t"
proof (induction c prompt attempt le st rule: attempt_loop.induct)
  case (1 c prompt attempt last_exception st)
  show ?case
  proof (cases "int attempt < max_retries c")
    case False
    with "1.prems" show ?thesis
      by (auto simp: attempt_loop_done split: option.splits)
  next
    case True
    let ?out = "generate_content c (length (calls st)) (model_name c) prompt"
    show ?thesis
    proof (cases "try_body ?out")
      case (Inr t)
      have "attempt_loop c prompt attempt last_exception st
            = (Inr t, st\<lparr>calls := calls st @ [(model_name c, prompt)]\<rparr>)"
        by (rule attempt_loop_success [OF True Inr])
      with "1.prems" try_body_Inr [OF Inr] show ?thesis by auto
    next
      case (Inl e)
      show ?thesis
      proof (cases "except_clauses c attempt e")
        case (Reraise r')
        have "attempt_loop c prompt attempt last_exception st
              = (Inl r', st\<lparr>calls := calls st @ [(model_name c, prompt)]\<rparr>)"
          by (rule attempt_loop_reraise [OF True Inl Reraise])
        with "1.prems" show ?thesis by simp
      next
        case (Retry r' w)
        let ?st2 = "st\<lparr>calls := calls st @ [(model_name c, prompt)], slept := slept st @ [w]\<rparr>"
        have "attempt_loop c prompt attempt last_exception st =
              attempt_loop c prompt (Suc attempt) (Some r') ?st2"
          by (rule attempt_loop_retry [OF True Inl Retry])
        with "1.prems" have "attempt_loop c prompt (Suc attempt) (Some r') ?st2 = (Inr r, st')"
          by simp
        then show ?thesis
          using "1.IH" [OF True refl refl Inl Retry] by simp
      qed
    qed
  qed
qed

lemma last_dropWhile:
  "dropWhile P xs \<noteq> [] \<Longrightarrow> last (dropWhile P xs) = last xs"
  by (induction xs) (auto split: if_splits)

lemma strip_no_surrounding_space:
  assumes "strip t \<noteq> []"
  shows "\<not> is_space (hd (strip t)) \<and> \<not> is_space (last (strip t))"
proof -
  let ?u = "dropWhile is_space t"
  let ?v = "dropWhile is_space (rev ?u)"
  have v: "?v \<noteq> []" using assms by (simp add: strip_def)
  have u: "?u \<noteq> []"
  proof
    assume "?u = []"
    then have "?v = []" by (simp only: rev.simps dropWhile.simps)
    with v show False ..
  qed
  have "last (strip t) = hd ?v" using v by (simp add: strip_def hd_rev [symmetric] last_rev)
  moreover have "\<not> is_space (hd ?v)" using v by (rule hd_dropWhile)
  moreover have "hd (strip t) = last ?v" using v by (simp add: strip_def hd_rev)
  moreover have "last ?v = last (rev ?u)" using v by (rule last_dropWhile)
  moreover have "last (rev ?u) = hd ?u" using u by (simp add: last_rev)
  moreover have "\<not> is_space (hd ?u)" using u by (rule hd_dropWhile)
  ultimately show ?thesis by simp
qed

text \<open>
  Claim C10. On an input that is not blank, whatever \<open>translate_text\<close> returns is the text
  of the response to its last remote call, which was not empty, with leading and trailing
  whitespace removed; so a returned translation neither starts nor ends with whitespace
  (a trailing newline does not survive). In particular, when the first call answers with a
  non-empty text, that text stripped is the result.
\<close>

theorem translated_text_is_stripped:
  assumes "strip src_text \<noteq> []"
  shows "(\<forall>r st'. translate_text c src_text lang st = (Inr r, st') \<longrightarrow>
            (\<exists>t. generate_content c (length (calls st') - 1) (model_name c)
                    (make_prompt src_text lang) = Returns (Response (Some t))
                  \<and> t \<noteq> [] \<and> r = strip t)
            \<and> (r \<noteq> [] \<longrightarrow> \<not> is_space (hd r) \<and> \<not> is_space (last r)))
    \<and> (\<forall>t. 0 < max_retries c
          \<and> generate_content c (length (calls st)) (model_name c)
                (make_prompt src_text lang) = Returns (Response (Some t))
          \<and> t \<noteq> []
          \<longrightarrow> translate_text c src_text lang st =
                (Inr (strip t),
                 st\<lparr>calls := calls st @ [(model_name c, make_prompt src_text lang)]\<rparr>))"
proof (intro conjI allI impI)
  fix r st'
  assume "translate_text c src_text lang st = (Inr r, st')"
  then have "attempt_loop c (make_prompt src_text lang) 0 None st = (Inr r, st')"
    by (simp add: translate_text_nonblank [OF assms])
  from attempt_loop_Inr [OF this]
  show ex: "\<exists>t. generate_content c (length (calls st') - 1) (model_name c)
                    (make_prompt src_text lang) = Returns (Response (Some t))
                  \<and> t \<noteq> [] \<and> r = strip t" .
  assume "r \<noteq> []"
  with ex strip_no_surrounding_space show "\<not> is_space (hd r)" by blast
  from ex \<open>r \<noteq> []\<close> strip_no_surrounding_space show "\<not> is_space (last r)" by blast
next
  fix t
  assume h: "0 < max_retries c
          \<and> generate_content c (length (calls st)) (model_name c)
                (make_prompt src_text lang) = Returns (Response (Some t))
          \<and> t \<noteq> []"
  then have "attempt_loop c (make_prompt src_text lang) 0 None st =
     (Inr (strip t), st\<lparr>calls := calls st @ [(model_name c, make_prompt src_text lang)]\<rparr>)"
    by (intro attempt_loop_success) simp_all
  then show "translate_text c src_text lang st =
                (Inr (strip t),
                 st\<lparr>calls := calls st @ [(model_name c, make_prompt src_text lang)]\<rparr>)"
    by (simp add: translate_text_nonblank [OF assms])
qed

lemma strip_padded: "strip [CHR 0x20, CHR ''O'', CHR ''K'', CHR 0x20, NL] = ''OK''"
  by (simp add: strip_def is_space_def)

theorem translated_text_is_stripped_witness:
  "strip ''Hello'' \<noteq> []
   \<and> translate_text
        (scripted_client [Returns (Response (Some [CHR 0x20, CHR ''O'', CHR ''K'', CHR 0x20, NL]))])
        ''Hello'' ''Japanese'' fresh_state
      = (Inr ''OK'',
         \<lparr>calls = [(''gemini-3-flash-preview'', make_prompt ''Hello'' ''Japanese'')],
          slept = []\<rparr>)
   \<and> \<not> is_space (hd ''OK'') \<and> \<not> is_space (last ''OK'')"
proof -
  let ?c = "scripted_client
    [Returns (Response (Some [CHR 0x20, CHR ''O'', CHR ''K'', CHR 0x20, NL]))]"
  have h: "strip ''Hello'' \<noteq> []" by (simp add: strip_Hello)
  note T = translated_text_is_stripped [OF h, where c = ?c and lang = "''Japanese''"
      and st = fresh_state]
  have a: "translate_text ?c ''Hello'' ''Japanese'' fresh_state
      = (Inr ''OK'',
         \<lparr>calls = [(''gemini-3-flash-preview'', make_prompt ''Hello'' ''Japanese'')],
          slept = []\<rparr>)"
    using T [THEN conjunct2, rule_format,
        where t = "[CHR 0x20, CHR ''O'', CHR ''K'', CHR 0x20, NL]"]
    by (simp add: scripted_client_def fresh_state_def strip_padded)
  from T [THEN conjunct1, rule_format, OF a]
  have "\<not> is_space (hd ''OK'') \<and> \<not> is_space (last ''OK'')" by simp
  with h a show ?thesis by blast
qed

text \<open>
  Claim C6. An input that is empty or all whitespace comes back unchanged from
  \<open>translate_text\<close> and from \<open>translate_markdown\<close>, with the state of the client as it
  was: no remote call, no wait, and for the pipeline no use of its translator at all.
\<close>

theorem blank_input_unchanged:
  assumes "src_text = [] \<or> strip src_text = []"
  shows "translate_text c src_text lang st = (Inr src_text, st)
    \<and> translate_markdown api_translate src_text w = (Inr src_text, w)"
  using assms by (auto simp: translate_text_def translate_markdown_def)

theorem blank_input_unchanged_witness:
  "strip ''   '' = []
   \<and> translate_text (scripted_client []) ''   '' ''Japanese'' fresh_state
       = (Inr ''   '', fresh_state)
   \<and> translate_markdown (translate_text (scripted_client [])) ''   '' fresh_state
       = (Inr ''   '', fresh_state)"
proof -
  have h: "strip ''   '' = []" by (simp add: strip_def is_space_def)
  then have "''   '' = [] \<or> strip ''   '' = []" by blast
  from blank_input_unchanged [OF this, where c = "scripted_client []" and lang = "''Japanese''"
      and st = fresh_state and api_translate = "translate_text (scripted_client [])"
      and w = fresh_state] h
  show ?thesis by simp
qed

section \<open>Batch orchestration and exit code\<close>

declare replace_scan.simps [simp del] str_nat.simps [simp del]

text \<open>
  Claim C7. When enumeration fails or finds no document, \<open>translate_directory\<close> returns
  the empty list and leaves the world as it was, and \<open>main\<close> exits with 0. When the list
  of outcomes is not empty and one of them is marked failed, the exit code is 1, whatever
  the other outcomes are.
\<close>

theorem empty_batch_and_exit_code:
  "(((\<exists>e. find_markdown_files fsv source_dir (fst world) = Inl e)
      \<or> find_markdown_files fsv source_dir (fst world) = Inr [])
     \<longrightarrow> translate_directory fsv api_translate source_dir output_dir_name world
           = (Inr [], world)
         \<and> main_translate fsv api_translate source_dir world = (0, world))
   \<and> (results \<noteq> [] \<and> (\<exists>r\<in>set results. \<not> success r)
        \<longrightarrow> exit_code_of_results results = 1)
   \<and> (translate_directory fsv api_translate source_dir ''jp'' world = (Inr results, world')
        \<and> (\<exists>r\<in>set results. \<not> success r)
        \<longrightarrow> main_translate fsv api_translate source_dir world = (1, world'))"
proof (intro conjI impI)
  assume h: "(\<exists>e. find_markdown_files fsv source_dir (fst world) = Inl e)
      \<or> find_markdown_files fsv source_dir (fst world) = Inr []"
  then have td: "\<And>out. translate_directory fsv api_translate source_dir out world
           = (Inr [], world)"
    by (auto simp: translate_directory_def)
  show "translate_directory fsv api_translate source_dir output_dir_name world
           = (Inr [], world)" by (rule td)
  show "main_translate fsv api_translate source_dir world = (0, world)"
    by (simp add: main_translate_def td exit_code_of_results_def)
next
  assume h: "results \<noteq> [] \<and> (\<exists>r\<in>set results. \<not> success r)"
  then have "filter (\<lambda>r. \<not> success r) results \<noteq> []"
    by (auto simp: filter_empty_conv)
  with h show "exit_code_of_results results = 1"
    by (simp add: exit_code_of_results_def)
next
  assume h: "translate_directory fsv api_translate source_dir ''jp'' world = (Inr results, world')
        \<and> (\<exists>r\<in>set results. \<not> success r)"
  then have ne: "results \<noteq> []" by auto
  from h have "filter (\<lambda>r. \<not> success r) results \<noteq> []"
    by (auto simp: filter_empty_conv)
  with h ne show "main_translate fsv api_translate source_dir world = (1, world')"
    by (simp add: main_translate_def exit_code_of_results_def)
qed

lemma replace_scan_single:
  "replace_scan [a] new s = concat (map (\<lambda>c. if c = a then new else [c]) s)"
proof (induction s)
  case Nil
  show ?case by (subst replace_scan.simps) simp
next
  case (Cons c cs)
  show ?case using Cons by (subst replace_scan.simps) auto
qed

lemma replace_char:
  "replace [a] [b] s = map (\<lambda>c. if c = a then b else c) s"
  unfolding replace_def replace_scan_single
  by (induction s) auto

lemma sanitize_stem:
  "replace '':'' ''_'' (replace [CHR 0x5C] ''_'' (replace ''/'' ''_'' t))
   = map (\<lambda>c. if c = CHR ''/'' \<or> c = CHR 0x5C \<or> c = CHR '':'' then CHR ''_'' else c) t"
  by (simp add: replace_char)

lemma output_path_under_source_dir:
  "relative_to (path_parent (create_output_path src source_dir out) @ [name]) source_dir
   = Inr (drop (length source_dir)
            (path_parent (create_output_path src source_dir out) @ [name]))"
proof -
  obtain rel where "create_output_path src source_dir out = source_dir @ ([out] @ rel)"
    by (simp add: create_output_path_def)
  then have "path_parent (create_output_path src source_dir out)
             = source_dir @ butlast ([out] @ rel)"
    unfolding path_parent_def by (simp add: butlast_append)
  then show ?thesis by (simp add: relative_to_def)
qed

lemma footnote_def_pattern_plain [simp]:
  "footnote_def_pattern (CHR ''#'' # cs) = False"
  "footnote_def_pattern [] = False"
  by (simp_all add: footnote_def_pattern_def split: list.splits)

lemmas eval_defs =
  translate_directory_def translate_single_file_def single_file_try_def translate_stem_def
  translate_markdown_def preprocess_markdown_def postprocess_markdown_def
  table_service_def table_write_def stub_translator_def picky_translator_def
  relative_to_def create_output_path_def path_parent_def path_name_def path_stem_def
  strip_def is_space_def replace_char

theorem empty_batch_and_exit_code_witness:
  "translate_directory (table_service [] []) stub_translator [''missing''] ''jp''
      ([([''docs'', ''readme.txt''], ''text'')], [])
     = (Inr [], ([([''docs'', ''readme.txt''], ''text'')], []))
   \<and> main_translate (table_service [] []) stub_translator [''docs'']
      ([([''docs'', ''readme.txt''], ''text'')], [])
     = (0, ([([''docs'', ''readme.txt''], ''text'')], []))
   \<and> exit_code_of_results
       [\<lparr>source_file = [''docs'', ''a.md''], success = True, error_message = None\<rparr>,
        \<lparr>source_file = [''docs'', ''b.md''], success = False, error_message = Some ''Disk full''\<rparr>]
     = 1
   \<and> fst (main_translate (table_service [''b.md''] []) stub_translator [''docs'']
      ([([''docs'', ''a.md''], ''# A''), ([''docs'', ''b.md''], ''# B'')], [])) = 1"
proof -
  let ?w = "([([''docs'', ''readme.txt''], ''text'')], []) :: file_table \<times> string list"
  let ?results = "[\<lparr>source_file = [''docs'', ''a.md''], success = True, error_message = None\<rparr>,
        \<lparr>source_file = [''docs'', ''b.md''], success = False, error_message = Some ''Disk full''\<rparr>]"
  let ?w2 = "([([''docs'', ''a.md''], ''# A''), ([''docs'', ''b.md''], ''# B'')], [])
     :: file_table \<times> string list"
  have a: "translate_directory (table_service [] []) stub_translator [''missing''] ''jp'' ?w
     = (Inr [], ?w)"
    using empty_batch_and_exit_code [where fsv = "table_service [] []"
        and source_dir = "[''missing'']" and world = ?w and api_translate = stub_translator
        and output_dir_name = "''jp''", THEN conjunct1]
    by (simp add: table_service_def)
  have b: "main_translate (table_service [] []) stub_translator [''docs''] ?w = (0, ?w)"
    using empty_batch_and_exit_code [where fsv = "table_service [] []"
        and source_dir = "[''docs'']" and world = ?w and api_translate = stub_translator,
        THEN conjunct1]
    by (simp add: table_service_def path_name_def suffix_def)
  have c: "exit_code_of_results ?results = 1"
    using empty_batch_and_exit_code [where results = ?results, THEN conjunct2, THEN conjunct1]
    by simp
  have run: "\<exists>w'. translate_directory (table_service [''b.md''] []) stub_translator [''docs'']
       ''jp'' ?w2
     = (Inr [\<lparr>source_file = [''docs'', ''a.md''], success = True, error_message = None\<rparr>,
          \<lparr>source_file = [''docs'', ''b.md''], success = False,
            error_message = Some ''Permission denied''\<rparr>], w')"
    by (simp add: eval_defs suffix_def)
  then obtain w' where run': "translate_directory (table_service [''b.md''] []) stub_translator
       [''docs''] ''jp'' ?w2
     = (Inr [\<lparr>source_file = [''docs'', ''a.md''], success = True, error_message = None\<rparr>,
          \<lparr>source_file = [''docs'', ''b.md''], success = False,
            error_message = Some ''Permission denied''\<rparr>], w')" by blast
  have d: "fst (main_translate (table_service [''b.md''] []) stub_translator [''docs''] ?w2) = 1"
    using empty_batch_and_exit_code [where fsv = "table_service [''b.md''] []"
        and source_dir = "[''docs'']" and world = ?w2 and api_translate = stub_translator
        and world' = w', THEN conjunct2, THEN conjunct2, rule_format, OF conjI, OF run']
    by simp
  from a b c d show ?thesis by blast
qed

lemma output_path_by_steps:
  assumes "strict_prefix source_dir src"
  shows "path_parent (create_output_path src source_dir out) @ [name]
         = source_dir @ [out] @ butlast (drop (length source_dir) src) @ [name]"
proof -
  from assms obtain rel where rel: "src = source_dir @ rel" "rel \<noteq> []"
    by (auto simp: strict_prefix_def prefix_def)
  then show ?thesis
    by (simp add: create_output_path_def relative_to_def path_parent_def butlast_append)
qed

lemma relative_to_append [simp]: "relative_to (d @ xs) d = Inr xs"
  by (simp add: relative_to_def)

lemma translate_single_file_by_steps:
  assumes "strict_prefix source_dir src"
  shows "fst (translate_single_file fsv api_translate src source_dir out world)
         = Inr (outcome_by_steps fsv api_translate source_dir out src world)"
proof -
  have p: "prefix source_dir src" using assms by (simp add: strict_prefix_def)
  have rel: "relative_to src source_dir = Inr (drop (length source_dir) src)"
    using p by (simp add: relative_to_def)
  show ?thesis
    unfolding translate_single_file_def single_file_try_def outcome_by_steps_def rel
    by (auto simp: Let_def output_path_by_steps [OF assms] output_path_under_source_dir
        simp flip: append_assoc
        split: prod.splits sum.splits option.splits)
qed

lemma process_files_world:
  "snd (process_files fsv tr sd out docs acc world)
   = snd (process_files fsv tr sd out docs acc' world)"
proof (induction docs arbitrary: acc acc' world)
  case Nil
  show ?case by simp
next
  case (Cons d ds)
  obtain r world1 where "translate_single_file fsv tr d sd out world = (r, world1)"
    by (cases "translate_single_file fsv tr d sd out world")
  then show ?case
    using Cons [of "acc @ [projr r]" world1 "acc' @ [projr r]"]
    by (cases r) auto
qed

lemma process_files_results:
  assumes "\<forall>src\<in>set docs. strict_prefix sd src"
  shows "\<exists>rs world'. process_files fsv tr sd out docs acc world = (Inr (acc @ rs), world')
          \<and> length rs = length docs
          \<and> (\<forall>i<length docs. rs ! i =
                 outcome_by_steps fsv tr sd out (docs ! i)
                   (world_before fsv tr sd out docs i world))"
  using assms
proof (induction docs arbitrary: acc world)
  case Nil
  show ?case by simp
next
  case (Cons d ds)
  obtain r0 world1 where step: "translate_single_file fsv tr d sd out world = (r0, world1)"
    by (cases "translate_single_file fsv tr d sd out world")
  have d: "strict_prefix sd d" using Cons.prems by simp
  have r0: "r0 = Inr (outcome_by_steps fsv tr sd out d world)"
    using translate_single_file_by_steps [OF d, of fsv tr out world] step by simp
  let ?o = "outcome_by_steps fsv tr sd out d world"
  have "\<forall>src\<in>set ds. strict_prefix sd src" using Cons.prems by simp
  from Cons.IH [OF this, of "acc @ [?o]" world1] obtain rs world' where
    ih: "process_files fsv tr sd out ds (acc @ [?o]) world1 = (Inr ((acc @ [?o]) @ rs), world')"
        "length rs = length ds"
        "\<forall>i<length ds. rs ! i = outcome_by_steps fsv tr sd out (ds ! i)
                   (world_before fsv tr sd out ds i world1)"
    by blast
  have wb: "world_before fsv tr sd out (d # ds) (Suc j) world
            = world_before fsv tr sd out ds j world1" for j
    unfolding world_before_def using step r0 process_files_world [of fsv tr sd out "take j ds" "[?o]" world1 "[]"]
    by simp
  have wb0: "world_before fsv tr sd out (d # ds) 0 world = world"
    by (simp add: world_before_def)
  have "process_files fsv tr sd out (d # ds) acc world = (Inr (acc @ (?o # rs)), world')"
    using step r0 ih(1) by simp
  moreover have "length (?o # rs) = length (d # ds)" using ih(2) by simp
  moreover have "\<forall>i<length (d # ds). (?o # rs) ! i =
       outcome_by_steps fsv tr sd out ((d # ds) ! i) (world_before fsv tr sd out (d # ds) i world)"
  proof (intro allI impI)
    fix i assume "i < length (d # ds)"
    then show "(?o # rs) ! i =
       outcome_by_steps fsv tr sd out ((d # ds) ! i) (world_before fsv tr sd out (d # ds) i world)"
      using ih(3) by (cases i) (simp_all add: wb wb0)
  qed
  ultimately show ?case by blast
qed

lemma outcome_by_steps_source [simp]:
  "source_file (outcome_by_steps fsv tr sd out src world) = src"
  by (auto simp: outcome_by_steps_def Let_def split: prod.splits sum.splits option.splits)

text \<open>
  Claim C2. For a batch of \<open>K\<close> enumerated documents, each lying under the source
  directory, \<open>translate_directory\<close> returns normally with \<open>K\<close> outcomes, in the order of the
  documents. The outcome of document \<open>i\<close> is the one its own steps give in the world left by
  the documents before it: failed, with the error's text, when reading, translating or
  writing it raises, and successful otherwise. No failure of one document ends the run or
  changes the outcome recorded for another.
\<close>

theorem failure_isolation:
  assumes "find_markdown_files fsv source_dir (fst world) = Inr docs"
    and "\<forall>src\<in>set docs. strict_prefix source_dir src"
  shows "\<exists>results world'.
           translate_directory fsv api_translate source_dir output_dir_name world
             = (Inr results, world')
           \<and> length results = length docs
           \<and> (\<forall>i<length docs.
                 source_file (results ! i) = docs ! i
                 \<and> results ! i =
                     outcome_by_steps fsv api_translate source_dir output_dir_name (docs ! i)
                       (world_before fsv api_translate source_dir output_dir_name docs i world))"
proof (cases "docs = []")
  case True
  then show ?thesis using assms(1) by (simp add: translate_directory_def)
next
  case False
  from process_files_results [OF assms(2), of fsv api_translate output_dir_name "[]" world]
  obtain rs world' where
    rs: "process_files fsv api_translate source_dir output_dir_name docs [] world
           = (Inr rs, world')"
        "length rs = length docs"
        "\<forall>i<length docs. rs ! i =
           outcome_by_steps fsv api_translate source_dir output_dir_name (docs ! i)
             (world_before fsv api_translate source_dir output_dir_name docs i world)"
    by auto
  have "translate_directory fsv api_translate source_dir output_dir_name world = (Inr rs, world')"
    using assms(1) False rs(1) by (simp add: translate_directory_def)
  with rs(2,3) show ?thesis by auto
qed

theorem failure_isolation_witness:
  "\<exists>results world'.
     translate_directory (table_service [] []) (picky_translator ''B'') [''docs''] ''jp''
       ([([''docs'', ''a.md''], ''# A''), ([''docs'', ''b.md''], ''# B''),
         ([''docs'', ''c.md''], ''# C'')], [])
     = (Inr results, world')
     \<and> length results = 3
     \<and> results ! 0 = \<lparr>source_file = [''docs'', ''a.md''], success = True, error_message = None\<rparr>
     \<and> results ! 1 = \<lparr>source_file = [''docs'', ''b.md''], success = False,
          error_message = Some ''Failed to translate markdown: API connection failed''\<rparr>
     \<and> results ! 2 = \<lparr>source_file = [''docs'', ''c.md''], success = True, error_message = None\<rparr>"
proof -
  let ?fs = "[([''docs'', ''a.md''], ''# A''), ([''docs'', ''b.md''], ''# B''),
         ([''docs'', ''c.md''], ''# C'')] :: file_table"
  let ?docs = "[[''docs'', ''a.md''], [''docs'', ''b.md''], [''docs'', ''c.md'']]"
  let ?fsv = "table_service [] []"
  let ?tr = "picky_translator ''B''"
  have find: "find_markdown_files ?fsv [''docs''] (fst (?fs, [] :: string list)) = Inr ?docs"
    by (simp add: table_service_def path_name_def suffix_def)
  have under: "\<forall>src\<in>set ?docs. strict_prefix [''docs''] src"
    by (simp add: strict_prefix_def)
  from failure_isolation [OF find under, where api_translate = ?tr and output_dir_name = "''jp''"]
  obtain results world' where
    r: "translate_directory ?fsv ?tr [''docs''] ''jp'' (?fs, []) = (Inr results, world')"
       "length results = length ?docs"
       "\<forall>i<length ?docs. source_file (results ! i) = ?docs ! i
          \<and> results ! i = outcome_by_steps ?fsv ?tr [''docs''] ''jp'' (?docs ! i)
               (world_before ?fsv ?tr [''docs''] ''jp'' ?docs i (?fs, []))"
    by blast
  have r0: "results ! 0 = \<lparr>source_file = [''docs'', ''a.md''], success = True, error_message = None\<rparr>"
    using r(3) [rule_format, of 0]
    by (simp add: outcome_by_steps_def world_before_def eval_defs)
  have r1: "results ! 1 = \<lparr>source_file = [''docs'', ''b.md''], success = False,
          error_message = Some ''Failed to translate markdown: API connection failed''\<rparr>"
    using r(3) [rule_format, of 1]
    by (simp add: outcome_by_steps_def world_before_def eval_defs)
  have r2: "results ! 2 = \<lparr>source_file = [''docs'', ''c.md''], success = True, error_message = None\<rparr>"
    using r(3) [rule_format, of 2]
    by (simp add: outcome_by_steps_def world_before_def eval_defs)
  from r(1,2) r0 r1 r2 show ?thesis by auto
qed

text \<open>
  Claim C8. The base name is given to the translator as it is. When that call raises, for
  whatever reason, the original base name is used, and a document whose content was read and
  translated and whose file is then written is marked successful. When the call returns,
  every \<open>/\<close>, \<open>\\<close> and \<open>:\<close> of the translated name is replaced by \<open>_\<close>.
\<close>

theorem stem_translation_fallback:
  "(api_translate stem ''Japanese'' w1 = (Inl e, w2)
      \<longrightarrow> translate_stem api_translate stem w1 = (stem, w2))
   \<and> (api_translate stem ''Japanese'' w1 = (Inr t, w2)
      \<longrightarrow> translate_stem api_translate stem w1 =
            (map (\<lambda>c. if c = CHR ''/'' \<or> c = CHR 0x5C \<or> c = CHR '':'' then CHR ''_'' else c) t,
             w2))
   \<and> (prefix source_dir src
       \<and> read_file fsv src fs = Inr content
       \<and> translate_markdown api_translate content w = (Inr translated_content, w1)
       \<and> api_translate (path_stem src) ''Japanese'' w1 = (Inl e, w2)
       \<and> write_file fsv
            (path_parent (create_output_path src source_dir output_dir_name)
               @ [path_stem src @ ''.md''])
            translated_content fs = (None, fs')
      \<longrightarrow> translate_single_file fsv api_translate src source_dir output_dir_name (fs, w)
            = (Inr \<lparr>source_file = src, success = True, error_message = None\<rparr>, (fs', w2)))"
proof (intro conjI impI)
  assume "api_translate stem ''Japanese'' w1 = (Inl e, w2)"
  then show "translate_stem api_translate stem w1 = (stem, w2)"
    by (simp add: translate_stem_def)
next
  assume "api_translate stem ''Japanese'' w1 = (Inr t, w2)"
  then show "translate_stem api_translate stem w1 =
            (map (\<lambda>c. if c = CHR ''/'' \<or> c = CHR 0x5C \<or> c = CHR '':'' then CHR ''_'' else c) t,
             w2)"
    by (simp add: translate_stem_def sanitize_stem)
next
  assume h: "prefix source_dir src
       \<and> read_file fsv src fs = Inr content
       \<and> translate_markdown api_translate content w = (Inr translated_content, w1)
       \<and> api_translate (path_stem src) ''Japanese'' w1 = (Inl e, w2)
       \<and> write_file fsv
            (path_parent (create_output_path src source_dir output_dir_name)
               @ [path_stem src @ ''.md''])
            translated_content fs = (None, fs')"
  then have ts: "translate_stem api_translate (path_stem src) w1 = (path_stem src, w2)"
    by (simp add: translate_stem_def)
  have rel: "relative_to src source_dir = Inr (drop (length source_dir) src)"
    using h by (simp add: relative_to_def)
  show "translate_single_file fsv api_translate src source_dir output_dir_name (fs, w)
            = (Inr \<lparr>source_file = src, success = True, error_message = None\<rparr>, (fs', w2))"
    using h
    by (simp add: translate_single_file_def single_file_try_def rel ts Let_def
        output_path_under_source_dir)
qed

theorem stem_translation_fallback_witness:
  "translate_stem (picky_translator ''README'') ''README'' [] = (''README'', [''README''])
   \<and> translate_stem stub_translator ''a:b/c'' [] = (''[T] a_b_c'', [''a:b/c''])
   \<and> translate_single_file (table_service [] []) (picky_translator ''README'')
        [''docs'', ''README.md''] [''docs''] ''jp'' ([([''docs'', ''README.md''], ''# Hello'')], [])
      = (Inr \<lparr>source_file = [''docs'', ''README.md''], success = True, error_message = None\<rparr>,
         ([([''docs'', ''README.md''], ''# Hello''), ([''docs'', ''jp'', ''README.md''], ''[T] # Hello'')],
          [''# Hello'', ''README'']))"
proof -
  let ?tr = "picky_translator ''README''"
  let ?fs = "[([''docs'', ''README.md''], ''# Hello'')] :: file_table"
  have a: "translate_stem ?tr ''README'' [] = (''README'', [''README''])"
    using stem_translation_fallback [where api_translate = ?tr and stem = "''README''"
        and ?w1.0 = "[]" and ?w2.0 = "[''README'']" and e = "APIError ''API connection failed''",
        THEN conjunct1]
    by (simp add: picky_translator_def)
  have b: "translate_stem stub_translator ''a:b/c'' [] = (''[T] a_b_c'', [''a:b/c''])"
    using stem_translation_fallback [where api_translate = stub_translator and stem = "''a:b/c''"
        and ?w1.0 = "[]" and ?w2.0 = "[''a:b/c'']" and t = "''[T] a:b/c''",
        THEN conjunct2, THEN conjunct1]
    by (simp add: stub_translator_def)
  have c: "translate_single_file (table_service [] []) ?tr
        [''docs'', ''README.md''] [''docs''] ''jp'' (?fs, [])
      = (Inr \<lparr>source_file = [''docs'', ''README.md''], success = True, error_message = None\<rparr>,
         ([([''docs'', ''README.md''], ''# Hello''), ([''docs'', ''jp'', ''README.md''], ''[T] # Hello'')],
          [''# Hello'', ''README'']))"
    using stem_translation_fallback [where api_translate = ?tr
        and source_dir = "[''docs'']" and src = "[''docs'', ''README.md'']"
        and fsv = "table_service [] []" and fs = ?fs and content = "''# Hello''"
        and w = "[]" and translated_content = "''[T] # Hello''" and ?w1.0 = "[''# Hello'']"
        and ?w2.0 = "[''# Hello'', ''README'']" and e = "APIError ''API connection failed''"
        and output_dir_name = "''jp''"
        and fs' = "[([''docs'', ''README.md''], ''# Hello''), ([''docs'', ''jp'', ''README.md''], ''[T] # Hello'')]",
        THEN conjunct2, THEN conjunct2]
    by (simp add: eval_defs rfind_dot.simps)
  from a b c show ?thesis by blast
qed

section \<open>Shielding and unshielding\<close>

lemma contains_sublist: "contains sub s \<longleftrightarrow> sublist sub s"
  by (induction s) (auto simp: sublist_Cons_right)

lemma join_Cons: "ys \<noteq> [] \<Longrightarrow> join s (x # ys) = x @ s @ join s ys"
  by (cases ys) simp_all

lemma join_append:
  "xs \<noteq> [] \<Longrightarrow> ys \<noteq> [] \<Longrightarrow> join s (xs @ ys) = join s xs @ s @ join s ys"
proof (induction xs)
  case Nil
  then show ?case by simp
next
  case (Cons x xs)
  show ?case
  proof (cases "xs = []")
    case True
    then show ?thesis using Cons.prems by (simp add: join_Cons)
  next
    case False
    then show ?thesis using Cons by (simp add: join_Cons)
  qed
qed

lemma split_nl_nonempty [simp]: "split_nl s \<noteq> []"
  by (induction s) auto

lemma join_split_nl: "join [NL] (split_nl s) = s"
proof (induction s)
  case Nil
  show ?case by simp
next
  case (Cons c cs)
  obtain y ys where r: "split_nl cs = y # ys"
    using split_nl_nonempty [of cs] by (cases "split_nl cs") auto
  show ?case
  proof (cases "c = NL")
    case True
    then show ?thesis using Cons by (simp add: join_Cons)
  next
    case False
    then show ?thesis using Cons r by (cases ys) simp_all
  qed
qed

lemma collect_continuation_append:
  "fst (collect_continuation ls) @ snd (collect_continuation ls) = ls"
  by (induction ls) (auto split: prod.splits)

lemma concat_blocks: "concat (map snd (blocks ls)) = ls"
  by (induction ls rule: blocks.induct) (auto simp: collect_continuation_append)

lemma blocks_nonempty: "(f, b) \<in> set (blocks ls) \<Longrightarrow> b \<noteq> []"
  by (induction ls rule: blocks.induct) (auto split: if_splits)

lemma preprocess_loop_blocks:
  "preprocess_loop ls pl fn
   = (pl @ partly_restored 0 (length fn) (blocks ls), fn @ footnote_texts (blocks ls))"
proof (induction ls pl fn rule: preprocess_loop.induct)
  case (1 pl fn)
  show ?case by (simp add: footnote_texts_def)
next
  case (2 line rest pl fn)
  show ?case
  proof (cases "footnote_def_pattern (strip line)")
    case True
    then show ?thesis using 2 by (simp add: footnote_texts_def Let_def)
  next
    case False
    then show ?thesis using 2 by (simp add: footnote_texts_def)
  qed
qed

lemma replace_scan_Nil [simp]: "replace_scan old new [] = []"
  by (subst replace_scan.simps) simp

lemma replace_scan_Cons:
  "old \<noteq> [] \<Longrightarrow>
   replace_scan old new (c # cs) =
     (if prefix old (c # cs) then new @ replace_scan old new (drop (length old) (c # cs))
      else c # replace_scan old new cs)"
  by (subst replace_scan.simps) simp

lemma replace_scan_absent:
  "\<not> sublist old s \<Longrightarrow> replace_scan old new s = s"
proof (induction s)
  case Nil
  show ?case by simp
next
  case (Cons c cs)
  then have "old \<noteq> []" by auto
  moreover have "\<not> prefix old (c # cs)" "\<not> sublist old cs"
    using Cons.prems by (auto simp: sublist_Cons_right)
  ultimately show ?case using Cons.IH by (simp add: replace_scan_Cons)
qed

lemma replace_scan_self: "old \<noteq> [] \<Longrightarrow> replace_scan old new old = new"
  by (cases old) (simp_all add: replace_scan_Cons)

lemma prefix_before_newline:
  assumes "NL \<notin> set old"
  shows "prefix old (a @ NL # b) \<longleftrightarrow> prefix old a"
proof
  assume "prefix old (a @ NL # b)"
  then have "prefix old a \<or> (\<exists>us. us \<noteq> [] \<and> prefix us (NL # b) \<and> old = a @ us)"
    by (auto simp: prefix_append)
  then show "prefix old a"
    using assms by (auto simp: prefix_Cons)
next
  assume "prefix old a"
  then show "prefix old (a @ NL # b)" by (rule prefix_prefix)
qed

lemma replace_scan_newline:
  assumes "old \<noteq> []" "NL \<notin> set old"
  shows "replace_scan old new (a @ NL # b)
         = replace_scan old new a @ NL # replace_scan old new b"
proof (induction a rule: length_induct)
  case (1 a)
  show ?case
  proof (cases a)
    case Nil
    have "\<not> prefix old (NL # b)" using assms by (cases old) auto
    then show ?thesis using Nil assms(1) by (simp add: replace_scan_Cons)
  next
    case (Cons c cs)
    show ?thesis
    proof (cases "prefix old a")
      case True
      then obtain r where r: "a = old @ r" by (auto simp: prefix_def)
      have len: "length r < length a" using r assms(1) by simp
      have p2: "prefix old (a @ NL # b)" using True by (rule prefix_prefix)
      have "replace_scan old new (a @ NL # b)
            = new @ replace_scan old new (drop (length old) (a @ NL # b))"
        using p2 assms(1) Cons by (simp add: replace_scan_Cons)
      also have "drop (length old) (a @ NL # b) = r @ NL # b" using r by simp
      also have "replace_scan old new (r @ NL # b)
                 = replace_scan old new r @ NL # replace_scan old new b"
        using 1 len by blast
      also have "new @ (replace_scan old new r @ NL # replace_scan old new b)
                 = replace_scan old new a @ NL # replace_scan old new b"
      proof -
        have "replace_scan old new a = new @ replace_scan old new (drop (length old) a)"
          using True assms(1) Cons by (simp add: replace_scan_Cons)
        moreover have "drop (length old) a = r" using r by simp
        ultimately show ?thesis by simp
      qed
      finally show ?thesis .
    next
      case False
      then have np: "\<not> prefix old (a @ NL # b)"
        using prefix_before_newline [OF assms(2)] by simp
      have "replace_scan old new (cs @ NL # b)
            = replace_scan old new cs @ NL # replace_scan old new b"
        using 1 Cons by simp
      then show ?thesis using False np Cons assms(1) by (simp add: replace_scan_Cons)
    qed
  qed
qed

lemma replace_scan_join:
  assumes "old \<noteq> []" "NL \<notin> set old"
  shows "replace_scan old new (join [NL] xs) = join [NL] (map (replace_scan old new) xs)"
proof (induction xs)
  case Nil
  show ?case by simp
next
  case (Cons x xs)
  show ?case
  proof (cases "xs = []")
    case True
    then show ?thesis by simp
  next
    case False
    then have "join [NL] (x # xs) = x @ NL # join [NL] xs"
      by (simp add: join_Cons)
    moreover have "join [NL] (map (replace_scan old new) (x # xs))
        = replace_scan old new x @ NL # join [NL] (map (replace_scan old new) xs)"
      using False by (simp add: join_Cons)
    ultimately show ?thesis
      using Cons replace_scan_newline [OF assms] by simp
  qed
qed

lemma digit_char_digit: "d < 10 \<Longrightarrow> digit_char d \<in> set ''0123456789''"
proof -
  assume "d < 10"
  then have "d = 0 \<or> d = 1 \<or> d = 2 \<or> d = 3 \<or> d = 4 \<or> d = 5 \<or> d = 6 \<or> d = 7 \<or> d = 8 \<or> d = 9"
    by arith
  then show ?thesis
    by (elim disjE) (simp_all add: digit_char_def char_of_def bit_Suc_0_iff)
qed

lemma digit_char_inj:
  assumes "a < 10" "b < 10" "digit_char a = digit_char b"
  shows "a = b"
proof -
  have "(of_char (digit_char a) :: nat) = of_char (digit_char b)" using assms(3) by simp
  then have "(48 + a) mod 256 = (48 + b) mod 256" by (simp add: digit_char_def)
  then show ?thesis using assms(1,2) by simp
qed

lemma str_nat_small: "n < 10 \<Longrightarrow> str_nat n = [digit_char n]"
  by (subst str_nat.simps) simp

lemma str_nat_large:
  "\<not> n < 10 \<Longrightarrow> str_nat n = str_nat (n div 10) @ [digit_char (n mod 10)]"
  by (subst str_nat.simps) simp

lemma str_nat_nonempty [simp]: "str_nat n \<noteq> []"
  by (cases "n < 10") (simp_all add: str_nat_small str_nat_large)

lemma str_nat_digits: "set (str_nat n) \<subseteq> set ''0123456789''"
proof (induction n rule: str_nat.induct)
  case (1 n)
  show ?case
  proof (cases "n < 10")
    case True
    then show ?thesis using digit_char_digit [of n] by (simp add: str_nat_small)
  next
    case False
    have "n mod 10 < 10" by simp
    then have "digit_char (n mod 10) \<in> set ''0123456789''" by (rule digit_char_digit)
    then show ?thesis using False 1 by (simp add: str_nat_large)
  qed
qed

lemma str_nat_length_large: "\<not> n < 10 \<Longrightarrow> 2 \<le> length (str_nat n)"
proof -
  assume a: "\<not> n < 10"
  have "length (str_nat (n div 10)) \<ge> 1"
    using str_nat_nonempty [of "n div 10"] by (simp add: Suc_le_eq)
  then show ?thesis
    unfolding str_nat_large [OF a] by simp
qed

lemma str_nat_inj: "str_nat n = str_nat m \<Longrightarrow> n = m"
proof (induction n arbitrary: m rule: str_nat.induct)
  case (1 n)
  note eq = \<open>str_nat n = str_nat m\<close>
  show ?case
  proof (cases "n < 10")
    case n: True
    show ?thesis
    proof (cases "m < 10")
      case True
      from eq have "digit_char n = digit_char m"
        unfolding str_nat_small [OF n] str_nat_small [OF True] by simp
      then show ?thesis by (rule digit_char_inj [OF n True])
    next
      case False
      have "length (str_nat n) = 1" unfolding str_nat_small [OF n] by simp
      moreover have "2 \<le> length (str_nat m)" using False by (rule str_nat_length_large)
      ultimately show ?thesis using eq by simp
    qed
  next
    case n: False
    show ?thesis
    proof (cases "m < 10")
      case True
      have "length (str_nat m) = 1" unfolding str_nat_small [OF True] by simp
      moreover have "2 \<le> length (str_nat n)" using n by (rule str_nat_length_large)
      ultimately show ?thesis using eq by simp
    next
      case False
      from eq have "str_nat (n div 10) @ [digit_char (n mod 10)]
                    = str_nat (m div 10) @ [digit_char (m mod 10)]"
        unfolding str_nat_large [OF n] str_nat_large [OF False] .
      then have e1: "str_nat (n div 10) = str_nat (m div 10)"
        and e2: "digit_char (n mod 10) = digit_char (m mod 10)"
        by simp_all
      have d: "n div 10 = m div 10" using e1 by (rule "1.IH" [OF n])
      have "n mod 10 < 10" "m mod 10 < 10" by simp_all
      then have r: "n mod 10 = m mod 10" using e2 by (rule digit_char_inj)
      have "n = 10 * (n div 10) + n mod 10" by simp
      also have "\<dots> = 10 * (m div 10) + m mod 10" using d r by simp
      also have "\<dots> = m" by simp
      finally show ?thesis .
    qed
  qed
qed

lemma placeholder_nonempty [simp]: "placeholder n \<noteq> []"
  by (simp add: placeholder_def)

lemma placeholder_no_newline: "NL \<notin> set (placeholder n)"
  using str_nat_digits [of n] by (auto simp: placeholder_def)

lemma digits_then_underscore:
  assumes "set a \<subseteq> set ''0123456789''" "set b \<subseteq> set ''0123456789''"
    and "a @ CHR ''_'' # r = b @ CHR ''_'' # r'"
  shows "a = b"
proof -
  have "takeWhile (\<lambda>c. c \<noteq> CHR ''_'') (a @ CHR ''_'' # r) = a"
    using assms(1) by (intro takeWhile_tail [THEN trans]) auto
  moreover have "takeWhile (\<lambda>c. c \<noteq> CHR ''_'') (b @ CHR ''_'' # r') = b"
    using assms(2) by (intro takeWhile_tail [THEN trans]) auto
  ultimately show ?thesis using assms(3) by simp
qed

lemma placeholder_sublist:
  assumes "sublist (placeholder m) (placeholder n)"
  shows "m = n"
proof -
  let ?F = "CHR ''F''"
  from assms obtain xs ys where
    eq: "placeholder n = xs @ placeholder m @ ys" by (auto simp: sublist_def)
  have dn: "set (str_nat n) \<subseteq> set ''0123456789''" and dm: "set (str_nat m) \<subseteq> set ''0123456789''"
    by (rule str_nat_digits)+
  have cn: "count_list (placeholder n) ?F = 1"
    using dn by (auto simp: placeholder_def count_list_0_iff)
  have cm: "count_list (placeholder m) ?F = 1"
    using dm by (auto simp: placeholder_def count_list_0_iff)
  have "count_list (xs @ placeholder m @ ys) ?F = 1" using cn eq by simp
  then have "count_list xs ?F = 0" using cm by simp
  then have nF: "?F \<notin> set xs" by (simp add: count_list_0_iff)
  have "takeWhile (\<lambda>c. c \<noteq> ?F) (placeholder n) = ''__''"
    by (simp add: placeholder_def)
  moreover have "takeWhile (\<lambda>c. c \<noteq> ?F) (xs @ placeholder m @ ys) = xs @ ''__''"
  proof -
    have "takeWhile (\<lambda>c. c \<noteq> ?F) (xs @ placeholder m @ ys)
          = xs @ takeWhile (\<lambda>c. c \<noteq> ?F) (placeholder m @ ys)"
      by (rule takeWhile_append2) (use nF in auto)
    then show ?thesis by (simp add: placeholder_def)
  qed
  ultimately have "xs = []" using eq by simp
  then have "str_nat n @ CHR ''_'' # ''_'' = str_nat m @ CHR ''_'' # (''_'' @ ys)"
    using eq by (simp add: placeholder_def)
  from digits_then_underscore [OF dn dm this] have "str_nat n = str_nat m" .
  then show ?thesis by (rule str_nat_inj [symmetric])
qed

lemma footnote_texts_Cons:
  "footnote_texts ((f, b) # bs)
   = (if f then join [NL] b # footnote_texts bs else footnote_texts bs)"
  by (simp add: footnote_texts_def)

lemma restore_step_segments:
  assumes "\<forall>(f, b)\<in>set bs. \<not> sublist (placeholder m) (join [NL] b)"
    and "n \<le> m \<longrightarrow> m < n + length (footnote_texts bs)
           \<longrightarrow> new = footnote_texts bs ! (m - n)"
  shows "map (replace_scan (placeholder m) new) (partly_restored m n bs)
         = partly_restored (Suc m) n bs"
  using assms
proof (induction bs arbitrary: n)
  case Nil
  show ?case by simp
next
  case (Cons fb bs)
  obtain f b where fb: "fb = (f, b)" by (cases fb)
  have absent: "\<not> sublist (placeholder m) (join [NL] b)"
    and rest: "\<forall>(f, b)\<in>set bs. \<not> sublist (placeholder m) (join [NL] b)"
    using Cons.prems(1) fb by auto
  have keep: "replace_scan (placeholder m) new (join [NL] b) = join [NL] b"
    using absent by (rule replace_scan_absent)
  show ?case
  proof (cases f)
    case False
    have "n \<le> m \<longrightarrow> m < n + length (footnote_texts bs)
           \<longrightarrow> new = footnote_texts bs ! (m - n)"
      using Cons.prems(2) fb False by (simp add: footnote_texts_Cons)
    from Cons.IH [OF rest this] show ?thesis using fb False keep by simp
  next
    case True
    have next_new: "Suc n \<le> m \<longrightarrow> m < Suc n + length (footnote_texts bs)
           \<longrightarrow> new = footnote_texts bs ! (m - Suc n)"
    proof (intro impI)
      assume a: "Suc n \<le> m" "m < Suc n + length (footnote_texts bs)"
      then have "new = footnote_texts (fb # bs) ! (m - n)"
        using Cons.prems(2) fb True by (simp add: footnote_texts_Cons)
      moreover have "m - n = Suc (m - Suc n)" using a by simp
      ultimately show "new = footnote_texts bs ! (m - Suc n)"
        using fb True by (simp add: footnote_texts_Cons)
    qed
    note ih = Cons.IH [OF rest next_new]
    consider "n < m" | "n = m" | "m < n" by linarith
    then show ?thesis
    proof cases
      case 1
      then show ?thesis using fb True keep ih by simp
    next
      case 2
      have "new = join [NL] b"
        using Cons.prems(2) fb True 2 by (simp add: footnote_texts_Cons)
      then show ?thesis using fb True 2 ih by (simp add: replace_scan_self)
    next
      case 3
      have "\<not> sublist (placeholder m) (placeholder n)"
        using 3 placeholder_sublist [of m n] by auto
      then have "replace_scan (placeholder m) new (placeholder n) = placeholder n"
        by (rule replace_scan_absent)
      then show ?thesis using fb True 3 ih by simp
    qed
  qed
qed

lemma replace_placeholder_step:
  assumes "\<forall>(f, b)\<in>set bs. \<not> sublist (placeholder m) (join [NL] b)"
    and "m < length (footnote_texts bs)"
  shows "replace (placeholder m) (footnote_texts bs ! m) (join [NL] (partly_restored m 0 bs))
         = join [NL] (partly_restored (Suc m) 0 bs)"
proof -
  have "replace (placeholder m) (footnote_texts bs ! m) (join [NL] (partly_restored m 0 bs))
        = replace_scan (placeholder m) (footnote_texts bs ! m)
            (join [NL] (partly_restored m 0 bs))"
    by (simp add: replace_def)
  also have "\<dots> = join [NL] (map (replace_scan (placeholder m) (footnote_texts bs ! m))
                        (partly_restored m 0 bs))"
    by (rule replace_scan_join) (simp_all add: placeholder_no_newline)
  also have "\<dots> = join [NL] (partly_restored (Suc m) 0 bs)"
    using restore_step_segments [OF assms(1), of 0 "footnote_texts bs ! m"] by simp
  finally show ?thesis .
qed

lemma restore_loop_blocks:
  assumes "\<forall>i<length (footnote_texts bs). \<forall>(f, b)\<in>set bs.
             \<not> sublist (placeholder i) (join [NL] b)"
    and "m \<le> length (footnote_texts bs)"
  shows "restore_loop m (drop m (footnote_texts bs)) (join [NL] (partly_restored m 0 bs))
         = join [NL] (partly_restored (length (footnote_texts bs)) 0 bs)"
  using assms(2)
proof (induction "length (footnote_texts bs) - m" arbitrary: m)
  case 0
  then show ?case by simp
next
  case (Suc k)
  then have m: "m < length (footnote_texts bs)" by simp
  have d: "drop m (footnote_texts bs) = footnote_texts bs ! m # drop (Suc m) (footnote_texts bs)"
    using m by (simp add: Cons_nth_drop_Suc)
  have absent: "\<forall>(f, b)\<in>set bs. \<not> sublist (placeholder m) (join [NL] b)"
    using assms(1) m by blast
  have "restore_loop m (drop m (footnote_texts bs)) (join [NL] (partly_restored m 0 bs))
        = restore_loop (Suc m) (drop (Suc m) (footnote_texts bs))
            (join [NL] (partly_restored (Suc m) 0 bs))"
    unfolding d by (simp add: replace_placeholder_step [OF absent m])
  also have "\<dots> = join [NL] (partly_restored (length (footnote_texts bs)) 0 bs)"
    using Suc(2) m by (intro Suc(1)) simp_all
  finally show ?case .
qed

lemma fully_restored:
  "n + length (footnote_texts bs) \<le> m \<Longrightarrow>
   partly_restored m n bs = map (\<lambda>(f, b). join [NL] b) bs"
proof (induction bs arbitrary: n)
  case Nil
  show ?case by simp
next
  case (Cons fb bs)
  obtain f b where fb: "fb = (f, b)" by (cases fb)
  show ?case
  proof (cases f)
    case True
    then show ?thesis using Cons.prems fb Cons.IH [of "Suc n"]
      by (simp add: footnote_texts_Cons)
  next
    case False
    then show ?thesis using Cons.prems fb Cons.IH [of n]
      by (simp add: footnote_texts_Cons)
  qed
qed

lemma join_concat:
  assumes "\<forall>b\<in>set bss. b \<noteq> []"
  shows "join s (map (join s) bss) = join s (concat bss)"
  using assms
proof (induction bss)
  case Nil
  show ?case by simp
next
  case (Cons b bss)
  show ?case
  proof (cases "bss = []")
    case True
    then show ?thesis by simp
  next
    case False
    have c: "concat bss \<noteq> []" using False Cons.prems by (cases bss) auto
    have "join s (map (join s) (b # bss)) = join s b @ s @ join s (map (join s) bss)"
      using False by (simp add: join_Cons)
    also have "\<dots> = join s b @ s @ join s (concat bss)" using Cons by simp
    also have "\<dots> = join s (b @ concat bss)"
      using Cons.prems c by (simp add: join_append)
    finally show ?thesis by simp
  qed
qed

lemma join_block_sublist:
  assumes "b \<noteq> []"
  shows "sublist (join s b) (join s (xs @ b @ ys))"
proof -
  have 1: "sublist (join s b) (join s (b @ ys))"
  proof (cases "ys = []")
    case True
    then show ?thesis by simp
  next
    case False
    then show ?thesis using assms by (simp add: join_append sublist_append_rightI)
  qed
  show ?thesis
  proof (cases "xs = []")
    case True
    then show ?thesis using 1 by simp
  next
    case False
    then have "join s (xs @ b @ ys) = join s xs @ s @ join s (b @ ys)"
      using assms by (simp add: join_append)
    moreover from 1 obtain ps ss where "join s (b @ ys) = ps @ join s b @ ss"
      by (auto simp: sublist_def)
    ultimately have "join s (xs @ b @ ys) = (join s xs @ s @ ps) @ join s b @ ss"
      by simp
    then show ?thesis unfolding sublist_def by blast
  qed
qed

lemma block_sublist_content:
  assumes "(f, b) \<in> set (blocks ls)"
  shows "sublist (join [NL] b) (join [NL] ls)"
proof -
  from assms obtain bs1 bs2 where "blocks ls = bs1 @ (f, b) # bs2"
    by (auto simp: in_set_conv_decomp)
  then have "concat (map snd (blocks ls)) = concat (map snd bs1) @ b @ concat (map snd bs2)"
    by simp
  then have "ls = concat (map snd bs1) @ b @ concat (map snd bs2)"
    by (simp add: concat_blocks)
  moreover have "b \<noteq> []" using assms by (rule blocks_nonempty)
  ultimately show ?thesis using join_block_sublist by metis
qed

lemma postprocess_restore_loop:
  "postprocess_markdown t fs = restore_loop 0 fs t"
  by (cases fs) (simp_all add: postprocess_markdown_def)

lemma preprocess_markdown_blocks:
  "preprocess_markdown content
   = (join [NL] (partly_restored 0 0 (blocks (split_nl content))),
      footnote_texts (blocks (split_nl content)))"
  by (simp add: preprocess_markdown_def preprocess_loop_blocks)

text \<open>
  Claim C1, as amended. When none of the placeholder tokens \<open>__FOOTNOTE_i__\<close> that
  shielding hands out for a content (one per footnote block it finds) occurs in that
  content, unshielding the shielded content with the returned table gives the content back.
\<close>

theorem shield_unshield_roundtrip:
  assumes "\<forall>i<length (snd (preprocess_markdown content)). \<not> contains (placeholder i) content"
  shows "postprocess_markdown (fst (preprocess_markdown content))
           (snd (preprocess_markdown content)) = content"
proof -
  let ?ls = "split_nl content"
  let ?bs = "blocks ?ls"
  let ?F = "footnote_texts ?bs"
  have content: "join [NL] ?ls = content" by (rule join_split_nl)
  have absent: "\<forall>i<length ?F. \<forall>(f, b)\<in>set ?bs. \<not> sublist (placeholder i) (join [NL] b)"
  proof (intro allI impI ballI)
    fix i fb
    assume i: "i < length ?F" and fb: "fb \<in> set ?bs"
    obtain f b where p: "fb = (f, b)" by (cases fb)
    have "sublist (join [NL] b) content"
      using block_sublist_content [of f b ?ls] fb p content by simp
    moreover have "\<not> sublist (placeholder i) content"
      using assms i by (simp add: preprocess_markdown_blocks contains_sublist)
    ultimately have "\<not> sublist (placeholder i) (join [NL] b)"
      using sublist_order.order_trans by blast
    then show "case fb of (f, b) \<Rightarrow> \<not> sublist (placeholder i) (join [NL] b)"
      using p by simp
  qed
  have "postprocess_markdown (fst (preprocess_markdown content))
           (snd (preprocess_markdown content))
        = restore_loop 0 (drop 0 ?F) (join [NL] (partly_restored 0 0 ?bs))"
    by (simp add: preprocess_markdown_blocks postprocess_restore_loop)
  also have "\<dots> = join [NL] (partly_restored (length ?F) 0 ?bs)"
    by (rule restore_loop_blocks [OF absent]) simp
  also have "partly_restored (length ?F) 0 ?bs = map (\<lambda>(f, b). join [NL] b) ?bs"
    by (rule fully_restored) simp
  also have "map (\<lambda>(f, b). join [NL] b) ?bs = map (join [NL]) (map snd ?bs)"
    by (simp add: case_prod_beta)
  also have "join [NL] (map (join [NL]) (map snd ?bs)) = join [NL] (concat (map snd ?bs))"
    by (rule join_concat) (auto dest: blocks_nonempty)
  also have "\<dots> = content" by (simp add: concat_blocks content)
  finally show ?thesis .
qed

lemma split_nl_eval:
  "split_nl (c # cs) =
     (case split_nl cs of [] \<Rightarrow> [] | l # ls \<Rightarrow> if c = NL then [] # l # ls else (c # l) # ls)"
  using split_nl_nonempty [of cs] by (cases "split_nl cs") auto

lemma str_nat_0 [simp]: "str_nat 0 = ''0''"
  by (simp add: str_nat_small digit_char_def char_of_def bit_Suc_0_iff)

lemmas shield_eval =
  split_nl_eval preprocess_markdown_def postprocess_markdown_def footnote_def_pattern_def any_plus_end_def
  spaces_any_plus_end_def strip_def is_space_def placeholder_def replace_def
  replace_scan_Cons Let_def

lemma shield_collision:
  "preprocess_markdown (''__FOOTNOTE_0__'' @ [NL] @ ''[^1]: a'')
   = (''__FOOTNOTE_0__'' @ [NL] @ ''__FOOTNOTE_0__'', [''[^1]: a''])"
  by (simp add: shield_eval del: split_nl.simps(2))

lemma unshield_collision:
  "postprocess_markdown (''__FOOTNOTE_0__'' @ [NL] @ ''__FOOTNOTE_0__'') [''[^1]: a'']
   = ''[^1]: a'' @ [NL] @ ''[^1]: a''"
  by (simp add: shield_eval del: split_nl.simps(2))

text \<open>
  Claim C1 as stated fails: a content with one footnote definition whose body already holds
  the text \<open>__FOOTNOTE_0__\<close> comes back with that text replaced by the footnote as well.
\<close>

theorem placeholder_collision_counterexample:
  "snd (preprocess_markdown (''__FOOTNOTE_0__'' @ [NL] @ ''[^1]: a'')) = [''[^1]: a'']
   \<and> postprocess_markdown
        (fst (preprocess_markdown (''__FOOTNOTE_0__'' @ [NL] @ ''[^1]: a'')))
        (snd (preprocess_markdown (''__FOOTNOTE_0__'' @ [NL] @ ''[^1]: a'')))
      \<noteq> ''__FOOTNOTE_0__'' @ [NL] @ ''[^1]: a''"
  unfolding shield_collision fst_conv snd_conv unshield_collision by simp

lemma shield_readme:
  "preprocess_markdown readme_content
   = (''# Hello'' @ [NL, NL] @ ''Body[^1].'' @ [NL, NL] @ ''__FOOTNOTE_0__'', [''[^1]: Note.''])"
  by (simp add: readme_content_def shield_eval del: split_nl.simps(2))

lemma unshield_readme:
  "postprocess_markdown
     (''[T] '' @ ''# Hello'' @ [NL, NL] @ ''Body[^1].'' @ [NL, NL] @ ''__FOOTNOTE_0__'')
     [''[^1]: Note.'']
   = ''[T] '' @ readme_content"
  by (simp add: readme_content_def shield_eval)

lemma readme_no_placeholder: "\<not> contains (placeholder 0) readme_content"
  by (simp add: placeholder_def readme_content_def)

theorem shield_unshield_roundtrip_witness:
  "snd (preprocess_markdown readme_content) = [''[^1]: Note.'']
   \<and> \<not> contains (placeholder 0) readme_content
   \<and> postprocess_markdown (fst (preprocess_markdown readme_content))
        (snd (preprocess_markdown readme_content)) = readme_content"
proof -
  have s: "snd (preprocess_markdown readme_content) = [''[^1]: Note.'']"
    by (simp add: shield_readme)
  have "\<forall>i<length (snd (preprocess_markdown readme_content)).
          \<not> contains (placeholder i) readme_content"
    using readme_no_placeholder by (simp add: s)
  from shield_unshield_roundtrip [OF this] s readme_no_placeholder show ?thesis by simp
qed

section \<open>The example scenario\<close>

lemma translate_markdown_readme:
  "translate_markdown stub_translator readme_content seen
   = (Inr (''[T] '' @ readme_content),
      seen @ [''# Hello'' @ [NL, NL] @ ''Body[^1].'' @ [NL, NL] @ ''__FOOTNOTE_0__''])"
proof -
  have "strip readme_content \<noteq> []"
    by (simp add: readme_content_def strip_def is_space_def)
  then have nb: "\<not> (readme_content = [] \<or> strip readme_content = [])"
    by (auto simp: strip_def)
  show ?thesis
    unfolding translate_markdown_def shield_readme
    using nb unshield_readme by (simp add: stub_translator_def)
qed

lemma stem_README: "path_stem (base_dir @ [''README.md'']) = ''README''"
  by (simp add: path_stem_def path_name_def)

lemma example_run:
  "translate_directory (table_service [] []) stub_translator base_dir ''jp''
     ([(base_dir @ [''README.md''], readme_content)], [])
   = (Inr [\<lparr>source_file = base_dir @ [''README.md''], success = True, error_message = None\<rparr>],
      ([(base_dir @ [''README.md''], readme_content),
        (base_dir @ [''jp'', ''[T] README.md''], ''[T] '' @ readme_content)],
       [''# Hello'' @ [NL, NL] @ ''Body[^1].'' @ [NL, NL] @ ''__FOOTNOTE_0__'', ''README'']))
   \<and> \<not> contains ''[^1]: Note.''
         (''# Hello'' @ [NL, NL] @ ''Body[^1].'' @ [NL, NL] @ ''__FOOTNOTE_0__'')"
proof -
  let ?src = "base_dir @ [''README.md'']"
  let ?fs = "[(?src, readme_content)] :: file_table"
  have find: "find_markdown_files (table_service [] []) base_dir (fst (?fs, [] :: string list))
              = Inr [?src]"
    by (simp add: table_service_def path_name_def suffix_def)
  have read: "read_file (table_service [] []) ?src ?fs = Inr readme_content"
    by (simp add: table_service_def)
  have stem: "translate_stem stub_translator ''README'' seen = (''[T] README'', seen @ [''README''])"
    for seen
    by (simp add: translate_stem_def stub_translator_def replace_char)
  have out: "path_parent (create_output_path ?src base_dir ''jp'') @ [''[T] README'' @ ''.md'']
             = base_dir @ [''jp'', ''[T] README.md'']"
    by (simp add: create_output_path_def path_parent_def relative_to_def butlast_append)
  have written: "write_file (table_service [] []) (base_dir @ [''jp'', ''[T] README.md''])
                 (''[T] '' @ readme_content) ?fs
               = (None, ?fs @ [(base_dir @ [''jp'', ''[T] README.md''], ''[T] '' @ readme_content)])"
    by (simp add: table_service_def table_write_def path_name_def)
  have tried: "single_file_try (table_service [] []) stub_translator ?src base_dir ''jp'' (?fs, [])
      = (None, (?fs @ [(base_dir @ [''jp'', ''[T] README.md''], ''[T] '' @ readme_content)],
           [''# Hello'' @ [NL, NL] @ ''Body[^1].'' @ [NL, NL] @ ''__FOOTNOTE_0__'', ''README'']))"
    unfolding single_file_try_def
    by (simp only: prod.case read sum.case translate_markdown_readme stem_README stem
        Let_def out written option.case)
       (simp add: relative_to_def)
  have single: "translate_single_file (table_service [] []) stub_translator ?src base_dir ''jp''
      (?fs, [])
      = (Inr \<lparr>source_file = ?src, success = True, error_message = None\<rparr>,
         (?fs @ [(base_dir @ [''jp'', ''[T] README.md''], ''[T] '' @ readme_content)],
           [''# Hello'' @ [NL, NL] @ ''Body[^1].'' @ [NL, NL] @ ''__FOOTNOTE_0__'', ''README'']))"
    unfolding translate_single_file_def tried by (simp add: relative_to_def)
  have run: "translate_directory (table_service [] []) stub_translator base_dir ''jp'' (?fs, [])
   = (Inr [\<lparr>source_file = ?src, success = True, error_message = None\<rparr>],
      (?fs @ [(base_dir @ [''jp'', ''[T] README.md''], ''[T] '' @ readme_content)],
       [''# Hello'' @ [NL, NL] @ ''Body[^1].'' @ [NL, NL] @ ''__FOOTNOTE_0__'', ''README'']))"
    unfolding translate_directory_def find by (simp add: single)
  have "\<not> contains ''[^1]: Note.''
         (''# Hello'' @ [NL, NL] @ ''Body[^1].'' @ [NL, NL] @ ''__FOOTNOTE_0__'')"
    by simp
  with run show ?thesis by simp
qed

text \<open>
  Claim C5, as amended. With \<open>README.md\<close> directly under the base_dir, holding
  \<open># Hello\n\nBody[^1].\n\n[^1]: Note.\<close>, and a translator stub that returns \<open>[T] <input>\<close>,
  the batch gives one successful outcome and writes exactly one file,
  \<open><base_dir>/jp/[T] README.md\<close>, with content \<open>[T] # Hello\n\nBody[^1].\n\n[^1]: Note.\<close>. The stub
  was called twice: with the shielded body, in which the footnote definition line is replaced
  by \<open>__FOOTNOTE_0__\<close>, and with the base name \<open>README\<close>.
\<close>

theorem example_scenario:
  "translate_directory (table_service [] []) stub_translator base_dir ''jp''
     ([(base_dir @ [''README.md''], readme_content)], [])
   = (Inr [\<lparr>source_file = base_dir @ [''README.md''], success = True, error_message = None\<rparr>],
      ([(base_dir @ [''README.md''], readme_content),
        (base_dir @ [''jp'', ''[T] README.md''], ''[T] '' @ readme_content)],
       [''# Hello'' @ [NL, NL] @ ''Body[^1].'' @ [NL, NL] @ ''__FOOTNOTE_0__'', ''README'']))
   \<and> \<not> contains ''[^1]: Note.''
         (''# Hello'' @ [NL, NL] @ ''Body[^1].'' @ [NL, NL] @ ''__FOOTNOTE_0__'')"
  by (rule example_run)

text \<open>
  Claim C5 as stated fails: after the run of the example there is no file
  \<open>docs/jp/[T] Hello.md\<close>; the translated name comes from the file name \<open>README\<close>, not from
  the title.
\<close>

theorem example_scenario_counterexample:
  "map_of
     (fst (snd (translate_directory (table_service [] []) stub_translator [''docs''] ''jp''
        ([([''docs'', ''README.md''], readme_content)], []))))
     [''docs'', ''jp'', ''[T] Hello.md'']
   = None"
proof -
  have "fst (snd (translate_directory (table_service [] []) stub_translator ([] @ [''docs'']) ''jp''
        ([(([] @ [''docs'']) @ [''README.md''], readme_content)], [])))
      = [(([] @ [''docs'']) @ [''README.md''], readme_content),
        (([] @ [''docs'']) @ [''jp'', ''[T] README.md''], ''[T] '' @ readme_content)]"
    by (simp only: example_run fst_conv snd_conv)
  then show ?thesis by simp
qed

end
